theory Spec2Isabelle
  imports Complex_Main "HOL-Library.Multiset"
begin

section \<open>Strings\<close>

text \<open>
  A Python \<open>str\<close> is a sequence of Unicode code points; the report template contains
  characters beyond Latin-1 (the curly quotation marks around a comment), so a string is
  a list of code points. \<open>str\<close> reads an ASCII literal.
\<close>

type_synonym pystr = "nat list"

definition str :: "string \<Rightarrow> pystr" where
  "str cs = map of_char cs"

text \<open>
  \<open>c.lower()\<close>. Only the ASCII letters are mapped. The patterns the loader looks for
  are ASCII, and the only other characters whose lower case holds an ASCII letter are
  U+212A (a \<open>k\<close>, which is in no pattern) and U+0130 (an \<open>i\<close> followed by
  U+0307, which follows an \<open>i\<close> in no pattern), so the tests below are not affected.
\<close>

definition lower_char :: "nat \<Rightarrow> nat" where
  "lower_char c = (if 65 \<le> c \<and> c \<le> 90 then c + 32 else c)"

definition lower :: "pystr \<Rightarrow> pystr" where
  "lower s = map lower_char s"

text \<open>\<open>s.startswith(p)\<close> and \<open>p in s\<close>.\<close>

definition startswith :: "pystr \<Rightarrow> pystr \<Rightarrow> bool" where
  "startswith s p = (take (length p) s = p)"

fun contains :: "pystr \<Rightarrow> pystr \<Rightarrow> bool" where
  "contains [] p = (p = [])"
| "contains (c # s) p = (startswith (c # s) p \<or> contains s p)"

text \<open>
  \<open>s.strip()\<close> removes the characters for which \<open>str.isspace\<close> holds from both ends.
\<close>

definition isspace :: "nat \<Rightarrow> bool" where
  "isspace c = (c \<in> set [9, 10, 11, 12, 13, 28, 29, 30, 31, 32, 133, 160, 5760,
      8192, 8193, 8194, 8195, 8196, 8197, 8198, 8199, 8200, 8201, 8202,
      8232, 8233, 8239, 8287, 12288])"

definition strip :: "pystr \<Rightarrow> pystr" where
  "strip s = rev (dropWhile isspace (rev (dropWhile isspace s)))"

text \<open>\<open>sep.join(parts)\<close>.\<close>

fun join :: "pystr \<Rightarrow> pystr list \<Rightarrow> pystr" where
  "join sep [] = []"
| "join sep [p] = p"
| "join sep (p # q # ps) = p @ sep @ join sep (q # ps)"

text \<open>The decimal text of a natural number, as an f-string renders \<open>len(comments)\<close>.\<close>

fun str_nat :: "nat \<Rightarrow> pystr" where
  "str_nat k = (if k < 10 then [48 + k] else str_nat (k div 10) @ [48 + k mod 10])"

section \<open>Configuration\<close>

definition GOOD :: pystr where "GOOD = str ''#1a7f37''"
definition NEUTRAL :: pystr where "NEUTRAL = str ''#8a8f98''"
definition BAD :: pystr where "BAD = str ''#d1242f''"

section \<open>Helpers\<close>

text \<open>
  \<open>score_color\<close>. A float score is a number or NaN; NaN is \<open>None\<close>
  (\<open>pd.isna(score)\<close>).
\<close>

definition score_color :: "rat option \<Rightarrow> pystr" where
  "score_color score =
     (case score of
        None \<Rightarrow> NEUTRAL
      | Some x \<Rightarrow> if x \<ge> 4 then GOOD else if x \<ge> 3 then NEUTRAL else BAD)"

section \<open>The table\<close>

text \<open>
  A cell of the data frame: a number, a text, a parsed timestamp (nanoseconds, only
  after \<open>pd.to_datetime\<close>) or a missing value (NaN, NaT). The frame is the list of
  its columns in file order, each a name with one cell per row; \<open>pd.read_csv\<close> makes
  the names distinct and the columns equally long.
\<close>

datatype cell = Num rat | Txt pystr | Stamp nat | Missing

type_synonym dataframe = "(pystr \<times> cell list) list"

definition rectangular :: "nat \<Rightarrow> (pystr \<times> 'a list) list \<Rightarrow> bool" where
  "rectangular k cols = list_all (\<lambda>col. length (snd col) = k) cols"

text \<open>\<open>len(df)\<close>: the number of rows.\<close>

definition len :: "dataframe \<Rightarrow> nat" where
  "len frame = (case frame of [] \<Rightarrow> 0 | col # _ \<Rightarrow> length (snd col))"

text \<open>
  What the program takes from pandas and numpy: how a text cell reads as a number, how a
  cell of a column reads as a timestamp (the format is inferred from the whole column),
  how \<open>astype(str)\<close> prints a number and a timestamp, the float mean of a series
  that is not empty (\<open>Series.mean()\<close>: the values are doubles, each a rational, and
  the order in which they are added in double precision is the library's), the float
  quotient of two doubles, and \<open>argsort\<close> of a float array with the default kind
  (\<open>quicksort\<close>, which is not stable).
\<close>

record pandas =
  numeric_of :: "pystr \<Rightarrow> rat option"
  datetime_of :: "cell list \<Rightarrow> cell \<Rightarrow> nat option"
  text_of_number :: "rat \<Rightarrow> pystr"
  text_of_datetime :: "nat \<Rightarrow> pystr"
  mean_float :: "rat list \<Rightarrow> rat"
  float_quotient :: "rat \<Rightarrow> rat \<Rightarrow> rat"
  argsort :: "rat list \<Rightarrow> nat list"

text \<open>
  What is known of these: \<open>argsort\<close> returns the positions of the array in an order
  that sorts it, and says nothing on the order of equal values. Whole numbers whose
  absolute values add up to at most \<open>2\<^sup>5\<^sup>3\<close> are added exactly in double
  precision, in whatever order, so their float mean is the float quotient of their sum
  by their number.
\<close>

definition argsort_ok :: "pandas \<Rightarrow> bool" where
  "argsort_ok P =
     (\<forall>ks. mset (argsort P ks) = mset [0..<length ks]
           \<and> sorted (map (\<lambda>i. ks ! i) (argsort P ks)))"

definition whole :: "rat list \<Rightarrow> bool" where
  "whole xs = ((\<forall>x\<in>set xs. x \<in> \<int>) \<and> sum_list (map abs xs) \<le> 2 ^ 53)"

definition exact_on_whole :: "pandas \<Rightarrow> bool" where
  "exact_on_whole P =
     (\<forall>xs. xs \<noteq> [] \<and> whole xs
           \<longrightarrow> mean_float P xs = float_quotient P (sum_list xs) (of_nat (length xs)))"

datatype error = IndexError | ValueError

datatype errors_mode = Raise | Coerce

text \<open>\<open>pd.to_datetime(col, errors="coerce")\<close>: what does not parse becomes NaT.\<close>

definition to_datetime :: "pandas \<Rightarrow> cell list \<Rightarrow> cell list" where
  "to_datetime P cells =
     map (\<lambda>c. case datetime_of P cells c of None \<Rightarrow> Missing | Some t \<Rightarrow> Stamp t) cells"

text \<open>
  \<open>pd.to_numeric(col, errors=...)\<close>: a text that does not parse raises under
  \<open>errors="raise"\<close> and becomes NaN under \<open>errors="coerce"\<close>.
\<close>

definition to_numeric_cell :: "pandas \<Rightarrow> errors_mode \<Rightarrow> cell \<Rightarrow> error + rat option" where
  "to_numeric_cell P mode c =
     (case c of
        Num x \<Rightarrow> Inr (Some x)
      | Txt s \<Rightarrow> (case numeric_of P s of
                    Some x \<Rightarrow> Inr (Some x)
                  | None \<Rightarrow> if mode = Coerce then Inr None else Inl ValueError)
      | Stamp t \<Rightarrow> Inr (Some (of_nat t))
      | Missing \<Rightarrow> Inr None)"

fun to_numeric :: "pandas \<Rightarrow> errors_mode \<Rightarrow> cell list \<Rightarrow> error + rat option list" where
  "to_numeric P mode [] = Inr []"
| "to_numeric P mode (c # cs) =
     (case to_numeric_cell P mode c of
        Inl e \<Rightarrow> Inl e
      | Inr v \<Rightarrow> (case to_numeric P mode cs of Inl e \<Rightarrow> Inl e | Inr vs \<Rightarrow> Inr (v # vs)))"

section \<open>Load\<close>

definition is_timestamp_name :: "pystr \<Rightarrow> bool" where
  "is_timestamp_name c = startswith (lower c) (str ''timestamp'')"

definition is_comment_name :: "pystr \<Rightarrow> bool" where
  "is_comment_name c =
     (contains (lower c) (str ''optional'') \<or> contains (lower c) (str ''comment''))"

text \<open>
  \<open>next((c for c in df.columns if ...), df.columns[0])\<close>: the default is evaluated
  before the search, so a frame without columns raises.
\<close>

definition find_timestamp_col :: "pystr list \<Rightarrow> error + pystr" where
  "find_timestamp_col names =
     (case names of
        [] \<Rightarrow> Inl IndexError
      | first # _ \<Rightarrow> (case find is_timestamp_name names of Some c \<Rightarrow> Inr c | None \<Rightarrow> Inr first))"

definition find_comment_col :: "pystr list \<Rightarrow> pystr option" where
  "find_comment_col names = find is_comment_name names"

definition find_question_cols :: "pystr list \<Rightarrow> pystr \<Rightarrow> pystr option \<Rightarrow> pystr list" where
  "find_question_cols names ts cc = filter (\<lambda>c. c \<noteq> ts \<and> Some c \<noteq> cc) names"

text \<open>\<open>df[c] = f(df[c])\<close>: the column named \<open>c\<close> is replaced.\<close>

definition assign :: "pystr \<Rightarrow> (cell list \<Rightarrow> cell list) \<Rightarrow> dataframe \<Rightarrow> dataframe" where
  "assign c f frame = map (\<lambda>col. if fst col = c then (fst col, f (snd col)) else col) frame"

text \<open>
  \<open>for c in question_cols: df[c] = pd.to_numeric(df[c], errors="coerce")\<close>, over the
  columns of the frame that are question columns, in column order.
\<close>

fun convert_questions ::
  "pandas \<Rightarrow> pystr list \<Rightarrow> dataframe \<Rightarrow> error + (pystr \<times> rat option list) list" where
  "convert_questions P qs [] = Inr []"
| "convert_questions P qs (col # cols) =
     (if fst col \<in> set qs then
        (case to_numeric P Coerce (snd col) of
           Inl e \<Rightarrow> Inl e
         | Inr vs \<Rightarrow> (case convert_questions P qs cols of
                       Inl e \<Rightarrow> Inl e
                     | Inr rest \<Rightarrow> Inr ((fst col, vs) # rest)))
      else convert_questions P qs cols)"

text \<open>
  The state after loading: \<open>n\<close>, the timestamp column, the comment column (if any) with
  its cells, and the question columns with their numeric values (NaN is \<open>None\<close>).
\<close>

record loaded =
  nrows :: nat
  timestamp_col :: pystr
  comment_col :: "pystr option"
  comment_cells :: "cell list"
  questions :: "(pystr \<times> rat option list) list"

definition load :: "pandas \<Rightarrow> dataframe \<Rightarrow> error + loaded" where
  "load P frame =
     (case find_timestamp_col (map fst frame) of
        Inl e \<Rightarrow> Inl e
      | Inr ts \<Rightarrow>
          let frame1 = assign ts (to_datetime P) frame;
              cc = find_comment_col (map fst frame1);
              qs = find_question_cols (map fst frame1) ts cc
          in (case convert_questions P qs frame1 of
                Inl e \<Rightarrow> Inl e
              | Inr numeric \<Rightarrow>
                  Inr \<lparr> nrows = len frame1,
                        timestamp_col = ts,
                        comment_col = cc,
                        comment_cells =
                          (case find (\<lambda>col. Some (fst col) = cc) frame1 of
                             None \<Rightarrow> [] | Some col \<Rightarrow> snd col),
                        questions = numeric \<rparr>))"

section \<open>Summary statistics\<close>

text \<open>The values of a numeric column that are not NaN, in row order.\<close>

definition present :: "rat option list \<Rightarrow> rat list" where
  "present vs = List.map_filter id vs"

text \<open>
  \<open>df[question_cols].stack(dropna=True)\<close>: row by row, within a row column by column,
  without the missing values; the empty series when there is no question column.
\<close>

definition cell_at :: "rat option list \<Rightarrow> nat \<Rightarrow> rat option" where
  "cell_at vs i = (if i < length vs then vs ! i else None)"

definition stack_row :: "(pystr \<times> rat option list) list \<Rightarrow> nat \<Rightarrow> rat list" where
  "stack_row qs i = List.map_filter (\<lambda>col. cell_at (snd col) i) qs"

definition stacked :: "loaded \<Rightarrow> rat list" where
  "stacked L =
     (if questions L \<noteq> [] then concat (map (stack_row (questions L)) [0..<nrows L]) else [])"

text \<open>\<open>Series.mean()\<close> of the non-missing values: NaN on no values.\<close>

definition mean_of :: "pandas \<Rightarrow> rat list \<Rightarrow> rat option" where
  "mean_of P xs = (if xs = [] then None else Some (mean_float P xs))"

definition overall_mean :: "pandas \<Rightarrow> loaded \<Rightarrow> rat option" where
  "overall_mean P L = (if length (stacked L) \<noteq> 0 then mean_of P (stacked L) else None)"

definition median_of :: "rat list \<Rightarrow> rat option" where
  "median_of xs =
     (if xs = [] then None
      else let ys = sort xs; k = length ys
           in if odd k then Some (ys ! (k div 2))
              else Some ((ys ! (k div 2 - 1) + ys ! (k div 2)) / 2))"

definition min_of :: "rat list \<Rightarrow> rat option" where
  "min_of xs = (case xs of [] \<Rightarrow> None | x # rest \<Rightarrow> Some (fold min rest x))"

definition max_of :: "rat list \<Rightarrow> rat option" where
  "max_of xs = (case xs of [] \<Rightarrow> None | x # rest \<Rightarrow> Some (fold max rest x))"

record summary_row =
  Question :: pystr
  Mean :: "rat option"
  Median :: "rat option"
  MinV :: "rat option"
  MaxV :: "rat option"

definition summary_row_of :: "pandas \<Rightarrow> pystr \<times> rat option list \<Rightarrow> summary_row" where
  "summary_row_of P col =
     \<lparr> Question = fst col,
       Mean = mean_of P (present (snd col)),
       Median = median_of (present (snd col)),
       MinV = min_of (present (snd col)),
       MaxV = max_of (present (snd col)) \<rparr>"

text \<open>
  \<open>sort_values("Mean", ascending=False)\<close>. pandas sorts one key with \<open>nargsort\<close>:
  the positions whose key is NaN are set aside and appended in their order; the others
  are reversed, their keys sorted by \<open>argsort\<close>, and the result reversed again. The
  rows are then taken in the order of these positions.
\<close>

definition nargsort_desc :: "pandas \<Rightarrow> rat option list \<Rightarrow> nat list" where
  "nargsort_desc P items =
     (let idx = [0..<length items];
          non_nan_idx = rev (filter (\<lambda>i. items ! i \<noteq> None) idx);
          non_nans = map (\<lambda>i. case items ! i of None \<Rightarrow> 0 | Some m \<Rightarrow> m) non_nan_idx;
          nan_idx = filter (\<lambda>i. items ! i = None) idx
      in rev (map (\<lambda>k. non_nan_idx ! k) (argsort P non_nans)) @ nan_idx)"

definition sort_values_desc :: "pandas \<Rightarrow> summary_row list \<Rightarrow> summary_row list" where
  "sort_values_desc P rows = map (\<lambda>i. rows ! i) (nargsort_desc P (map Mean rows))"

definition summary :: "pandas \<Rightarrow> loaded \<Rightarrow> summary_row list" where
  "summary P L = sort_values_desc P (map (summary_row_of P) (questions L))"

definition best_q :: "pandas \<Rightarrow> loaded \<Rightarrow> pystr" where
  "best_q P L = (case summary P L of [] \<Rightarrow> str ''-'' | r # _ \<Rightarrow> Question r)"

definition best_mean :: "pandas \<Rightarrow> loaded \<Rightarrow> rat option" where
  "best_mean P L = (case summary P L of [] \<Rightarrow> None | r # _ \<Rightarrow> Mean r)"

definition worst_q :: "pandas \<Rightarrow> loaded \<Rightarrow> pystr" where
  "worst_q P L = (if summary P L = [] then str ''-'' else Question (last (summary P L)))"

definition worst_mean :: "pandas \<Rightarrow> loaded \<Rightarrow> rat option" where
  "worst_mean P L = (if summary P L = [] then None else Mean (last (summary P L)))"

section \<open>Score distributions\<close>

text \<open>\<open>Series.round()\<close>: to the nearest integer, a half to the even neighbour.\<close>

definition round_half_even :: "rat \<Rightarrow> int" where
  "round_half_even x =
     (let f = \<lfloor>x\<rfloor>; d = x - of_int f
      in if d < 1 / 2 then f else if 1 / 2 < d then f + 1
         else if even f then f else f + 1)"

text \<open>
  \<open>value_counts\<close> maps each value that occurs to the number of its occurrences;
  \<open>reindex(keys, fill_value=fill)\<close> reads it at the given keys, in their order.
\<close>

definition value_counts :: "'a list \<Rightarrow> ('a \<rightharpoonup> nat)" where
  "value_counts xs = (\<lambda>v. if v \<in> set xs then Some (count_list xs v) else None)"

definition reindex :: "'k list \<Rightarrow> nat \<Rightarrow> ('k \<rightharpoonup> nat) \<Rightarrow> ('k \<times> nat) list" where
  "reindex keys fill m = map (\<lambda>k. (k, case m k of None \<Rightarrow> fill | Some c \<Rightarrow> c)) keys"

definition scores :: "int list" where
  "scores = [1, 2, 3, 4, 5]"

definition dist_counts :: "loaded \<Rightarrow> (int \<times> nat) list" where
  "dist_counts L = reindex scores 0 (value_counts (map round_half_even (stacked L)))"

definition total_answers :: "loaded \<Rightarrow> nat" where
  "total_answers L = sum_list (map snd (dist_counts L))"

text \<open>
  The \<open>Percent\<close> column of \<open>dist_df\<close>. A float division is a value here: by zero it is
  not a number (\<open>None\<close>).
\<close>

definition float_div :: "rat \<Rightarrow> rat \<Rightarrow> rat option" where
  "float_div a b = (if b = 0 then None else Some (a / b))"

definition dist_percent :: "loaded \<Rightarrow> rat option list" where
  "dist_percent L =
     (if total_answers L \<noteq> 0
      then map (\<lambda>row. map_option (\<lambda>q. q * 100)
                  (float_div (of_nat (snd row)) (of_nat (total_answers L)))) (dist_counts L)
      else map (\<lambda>row. Some 0) (dist_counts L))"

text \<open>
  The table \<open>counts\<close> of \<open>dist_chart\<close>, which the bar chart draws:
  \<open>df[col_name].value_counts(dropna=False).reindex([1, 2, 3, 4, 5], fill_value=0)\<close>.
  The column is not rounded, and the label \<open>k\<close> finds the float value \<open>k\<close>.
\<close>

definition dist_chart :: "rat option list \<Rightarrow> (int \<times> nat) list" where
  "dist_chart vs = reindex scores 0 (\<lambda>k. value_counts vs (Some (of_int k)))"

text \<open>The data of the pie chart: names, values and title.\<close>

datatype label = Name pystr | Score int

record pie =
  pie_names :: "label list"
  pie_values :: "nat list"
  pie_title :: pystr

definition pie_chart :: "loaded \<Rightarrow> pie" where
  "pie_chart L =
     (if total_answers L = 0
      then \<lparr> pie_names = [Name (str ''No data'')], pie_values = [1],
             pie_title = str ''Overall distribution (1'' @ [8211] @ str ''5)'' \<rparr>
      else \<lparr> pie_names = map (\<lambda>row. Score (fst row)) (dist_counts L),
             pie_values = map snd (dist_counts L),
             pie_title = str ''Overall distribution of all answers (1'' @ [8211] @ str ''5)'' \<rparr>)"

text \<open>The number shown under "Total answers": \<open>total_answers/5\<close>, a float.\<close>

definition total_answers_kpi :: "loaded \<Rightarrow> rat" where
  "total_answers_kpi L = of_nat (total_answers L) / 5"

section \<open>Comments\<close>

text \<open>\<open>astype(str)\<close> on one cell that is not missing.\<close>

definition astype_str :: "pandas \<Rightarrow> cell \<Rightarrow> pystr" where
  "astype_str P c =
     (case c of
        Txt s \<Rightarrow> s
      | Num x \<Rightarrow> text_of_number P x
      | Stamp t \<Rightarrow> text_of_datetime P t
      | Missing \<Rightarrow> str ''nan'')"

text \<open>
  \<open>df[comment_col].dropna().astype(str).str.strip()\<close>, then without the empty
  strings.
\<close>

definition comments :: "pandas \<Rightarrow> loaded \<Rightarrow> pystr list" where
  "comments P L =
     filter (\<lambda>c. c \<noteq> [])
       (map (\<lambda>x. strip (astype_str P x)) (filter (\<lambda>x. x \<noteq> Missing) (comment_cells L)))"

text \<open>One block of the comments grid; the quotation marks are U+201C and U+201D.\<close>

definition comment_item :: "pystr \<Rightarrow> pystr" where
  \<open>comment_item c = str ''<div class='comment'>'' @ [8220] @ c @ [8221] @ str ''</div>''\<close>

definition section_open :: "nat \<Rightarrow> pystr" where
  \<open>section_open k =
     str ''\<newline>        <section class="panel span-12">\<newline>''
     @ str ''          <div class="panel-header">\<newline>''
     @ str ''            <div class="panel-title">Open-ended comments</div>\<newline>''
     @ str ''            <div class="panel-subtitle">'' @ str_nat k @ str '' comment(s)</div>\<newline>''
     @ str ''          </div>\<newline>''
     @ str ''          <div class="panel-body comments-grid">\<newline>''
     @ str ''            ''\<close>

definition section_close :: pystr where
  \<open>section_close =
     str ''\<newline>          </div>\<newline>        </section>\<newline>        ''\<close>

text \<open>
  \<open>comments_html\<close>: empty unless there is a comment column (\<open>if comment_col:\<close>, a
  name that is not \<open>None\<close> and not empty) with at least one comment left.
\<close>

definition comments_html :: "pandas \<Rightarrow> loaded \<Rightarrow> pystr" where
  "comments_html P L =
     (case comment_col L of
        None \<Rightarrow> []
      | Some c \<Rightarrow>
          if c = [] then []
          else if length (comments P L) \<noteq> 0
          then section_open (length (comments P L))
               @ join [10] (map comment_item (comments P L))
               @ section_close
          else [])"

text \<open>
  The document: \<open>comments_html\<close> is the last slot of the template. The text before
  the slot (head, style sheet, key figures, tables and the charts that plotly renders)
  is \<open>before\<close>.
\<close>

definition html_tail :: pystr where
  \<open>html_tail =
     str ''\<newline>    </div>\<newline>\<newline>    <div class="footer">Internal report '' @ [183]
     @ str '' Pulse XCap/MXI2</div>\<newline>  </div>\<newline></body>\<newline></html>\<newline>''\<close>

definition html :: "pystr \<Rightarrow> pandas \<Rightarrow> loaded \<Rightarrow> pystr" where
  "html before P L = before @ comments_html P L @ html_tail"

section \<open>The report\<close>

text \<open>Everything the run computes for the template, from the loaded table.\<close>

record report =
  rp_n :: nat
  rp_overall_mean :: "rat option"
  rp_overall_color :: pystr
  rp_best_q :: pystr
  rp_best_mean :: "rat option"
  rp_best_color :: pystr
  rp_worst_q :: pystr
  rp_worst_mean :: "rat option"
  rp_worst_color :: pystr
  rp_total_answers :: rat
  rp_summary :: "summary_row list"
  rp_percent :: "rat option list"
  rp_pie :: pie
  rp_charts :: "(pystr \<times> (int \<times> nat) list) list"
  rp_comments_html :: pystr

definition report_of :: "pandas \<Rightarrow> loaded \<Rightarrow> report" where
  "report_of P L =
     \<lparr> rp_n = nrows L,
       rp_overall_mean = overall_mean P L,
       rp_overall_color = score_color (overall_mean P L),
       rp_best_q = best_q P L,
       rp_best_mean = best_mean P L,
       rp_best_color = score_color (best_mean P L),
       rp_worst_q = worst_q P L,
       rp_worst_mean = worst_mean P L,
       rp_worst_color = score_color (worst_mean P L),
       rp_total_answers = total_answers_kpi L,
       rp_summary = summary P L,
       rp_percent = dist_percent L,
       rp_pie = pie_chart L,
       rp_charts = map (\<lambda>col. (fst col, dist_chart (snd col))) (questions L),
       rp_comments_html = comments_html P L \<rparr>"

definition run :: "pandas \<Rightarrow> dataframe \<Rightarrow> error + report" where
  "run P frame = (case load P frame of Inl e \<Rightarrow> Inl e | Inr L \<Rightarrow> Inr (report_of P L))"

section \<open>What the specification counts\<close>

text \<open>
  The quantities the specification compares the program with: the number of values of
  a column that are not missing, and the non-missing values of all question columns
  pooled, column after column.
\<close>

definition spec_non_missing :: "rat option list \<Rightarrow> nat" where
  "spec_non_missing vs = length (filter (\<lambda>v. v \<noteq> None) vs)"

definition spec_pooled :: "loaded \<Rightarrow> rat list" where
  "spec_pooled L = concat (map (\<lambda>col. present (snd col)) (questions L))"

definition spec_pooled_count :: "loaded \<Rightarrow> nat" where
  "spec_pooled_count L = sum_list (map (\<lambda>col. spec_non_missing (snd col)) (questions L))"

text \<open>
  What a cell of a question column is read as: a text that is no number is missing.
\<close>

definition spec_coerce :: "pandas \<Rightarrow> cell \<Rightarrow> rat option" where
  "spec_coerce P c =
     (case c of Num x \<Rightarrow> Some x | Txt s \<Rightarrow> numeric_of P s
      | Stamp t \<Rightarrow> Some (of_nat t) | Missing \<Rightarrow> None)"

text \<open>
  A name matches a pattern of small letters without regard to case when each of its
  characters is the character of the pattern or its capital.
\<close>

definition spec_ci_match :: "pystr \<Rightarrow> pystr \<Rightarrow> bool" where
  "spec_ci_match s p = list_all2 (\<lambda>x y. x = y \<or> x + 32 = y) s p"



text \<open>The columns with their rows taken in the order \<open>p\<close>.\<close>

definition spec_take_rows :: "nat list \<Rightarrow> (pystr \<times> 'a list) list \<Rightarrow> (pystr \<times> 'a list) list" where
  "spec_take_rows p cols = map (\<lambda>col. (fst col, map (\<lambda>i. snd col ! i) p)) cols"

section \<open>Double precision\<close>

text \<open>
  The doubles are the rationals \<open>m * 2\<^sup>e\<close> with \<open>|m| < 2\<^sup>5\<^sup>3\<close> and
  \<open>e\<close> from \<open>-1074\<close>. \<open>ulp x\<close> is the distance between the doubles
  around \<open>x\<close>, and \<open>fl\<close> rounds a rational of magnitude below
  \<open>2\<^sup>1\<^sup>0\<^sup>2\<^sup>4\<close> to the nearest double, a tie to the even mantissa, as every
  sum and quotient of two doubles is rounded. \<open>bit_length n\<close> is Python's
  \<open>n.bit_length()\<close>.
\<close>

fun bit_length :: "nat \<Rightarrow> nat" where
  "bit_length n = (if n = 0 then 0 else Suc (bit_length (n div 2)))"

declare bit_length.simps [simp del]

definition ulp :: "rat \<Rightarrow> rat" where
  "ulp x =
     (if 1 \<le> \<bar>x\<bar> then 2 ^ (bit_length (nat \<lfloor>\<bar>x\<bar>\<rfloor>) - 1) / 2 ^ 52
      else let y = 1 / \<bar>x\<bar>; k = bit_length (nat \<lfloor>y\<rfloor>) - 1;
               c = (if y = 2 ^ k then k else k + 1)
           in 1 / 2 ^ (min c 1022 + 52))"

definition fl :: "rat \<Rightarrow> rat" where
  "fl x = (if x = 0 then 0 else of_int (round_half_even (x / ulp x)) * ulp x)"

text \<open>
  The float mean of a series: its values are added one after the other, from 0, each
  sum rounded, and the sum is divided by their number (numpy adds a series of fewer
  than eight values in this order).
\<close>

definition fl_mean :: "rat list \<Rightarrow> rat" where
  "fl_mean xs = fl (foldl (\<lambda>a x. fl (a + x)) 0 xs / of_nat (length xs))"

section \<open>A sample table\<close>

text \<open>
  A pandas that reads the texts \<open>1\<close>, \<open>3\<close>, \<open>5\<close> and \<open>2.5\<close> as numbers
  and the text \<open>2025-01-01\<close> as a timestamp, whose mean and quotient are the exact
  ones (on the samples below the exact sums and quotients are doubles, so the float
  ones are the same) and whose \<open>argsort\<close> is the stable one; and a table of three
  responses with two questions and a comment column.
\<close>

definition demo_pandas :: pandas where
  "demo_pandas =
     \<lparr> numeric_of = (\<lambda>s. if s = str ''1'' then Some 1
                          else if s = str ''3'' then Some 3
                          else if s = str ''5'' then Some 5
                          else if s = str ''2.5'' then Some (5 / 2) else None),
       datetime_of = (\<lambda>col c. if c = Txt (str ''2025-01-01'')
                              then Some 1735689600000000000 else None),
       text_of_number = (\<lambda>x. str ''0.0''),
       text_of_datetime = (\<lambda>t. str ''2025-01-01''),
       mean_float = (\<lambda>xs. sum_list xs / of_nat (length xs)),
       float_quotient = (\<lambda>a b. a / b),
       argsort = (\<lambda>ks. sort_key (\<lambda>i. ks ! i) [0..<length ks]) \<rparr>"

text \<open>The same pandas with the mean and the quotient in double precision.\<close>

definition double_pandas :: pandas where
  "double_pandas =
     demo_pandas \<lparr> mean_float := fl_mean, float_quotient := (\<lambda>a b. fl (a / b)) \<rparr>"

definition demo_frame :: dataframe where
  "demo_frame =
     [(str ''Timestamp'',
         [Txt (str ''2025-01-01''), Txt (str ''2025-01-01''), Txt (str ''2025-01-01'')]),
      (str ''Q1'', [Num 1, Num 5, Missing]),
      (str ''Q2'', [Txt (str ''3''), Txt (str ''abc''), Txt (str ''2.5'')]),
      (str ''Comments (optional)'', [Txt (str ''  <b>good</b> ''), Missing, Txt (str ''   '')])]"

definition demo_loaded :: loaded where
  "demo_loaded =
     \<lparr> nrows = 3,
       timestamp_col = str ''Timestamp'',
       comment_col = Some (str ''Comments (optional)''),
       comment_cells = [Txt (str ''  <b>good</b> ''), Missing, Txt (str ''   '')],
       questions = [(str ''Q1'', [Some 1, Some 5, None]),
                    (str ''Q2'', [Some 3, None, Some (5 / 2)])] \<rparr>"

text \<open>
  A table of four responses whose first column is a question, with a timestamp column
  and a comment column named in mixed case, and a second column with \<open>optional\<close>
  in its name.
\<close>

definition demo_survey :: dataframe where
  "demo_survey =
     [(str ''Q1'', [Num 4, Num 2, Num 3, Missing]),
      (str ''TimeStamp (UTC)'',
         [Txt (str ''2025-01-01''), Txt (str ''2025-01-01''), Txt (str ''2025-01-01''),
          Txt (str ''2025-01-01'')]),
      (str ''Your COMMENTS'',
         [Txt ([9, 160] @ str ''<b>good</b>'' @ [32, 10]), Txt (str ''   ''), Missing,
          Txt (str '' second one '')]),
      (str ''Optional score'', [Txt (str ''5''), Missing, Txt (str ''n.a.''), Txt (str ''1'')])]"

definition demo_survey_loaded :: loaded where
  "demo_survey_loaded =
     \<lparr> nrows = 4,
       timestamp_col = str ''TimeStamp (UTC)'',
       comment_col = Some (str ''Your COMMENTS''),
       comment_cells =
         [Txt ([9, 160] @ str ''<b>good</b>'' @ [32, 10]), Txt (str ''   ''), Missing,
          Txt (str '' second one '')],
       questions = [(str ''Q1'', [Some 4, Some 2, Some 3, None]),
                    (str ''Optional score'', [Some 5, None, None, Some 1])] \<rparr>"

text \<open>
  A table of three responses to one question, answered 4.1, 4.3 and 3.6: the cells hold
  the doubles nearest to these decimals.
\<close>

definition demo_decimals :: dataframe where
  "demo_decimals =
     [(str ''Timestamp'',
         [Txt (str ''2025-01-01''), Txt (str ''2025-01-01''), Txt (str ''2025-01-01'')]),
      (str ''Q1'',
         [Num (2308094809027379 / 562949953421312), Num (4841369599423283 / 1125899906842624),
          Num (8106479329266893 / 2251799813685248)])]"

text \<open>
  Three loaded tables for the best and the worst question: two questions answered 1 and
  5 by three respondents each, with a third question; two questions of the same mean;
  and a question that nobody answered between two that were.
\<close>

definition demo_means :: loaded where
  "demo_means =
     \<lparr> nrows = 3, timestamp_col = str ''Timestamp'', comment_col = None, comment_cells = [],
       questions = [(str ''Q1'', [Some 1, Some 1, Some 1]),
                    (str ''Q2'', [Some 5, Some 5, Some 5]),
                    (str ''Q3'', [Some 3, None, Some 4])] \<rparr>"

definition demo_tie :: loaded where
  "demo_tie =
     \<lparr> nrows = 1, timestamp_col = str ''Timestamp'', comment_col = None, comment_cells = [],
       questions = [(str ''Q1'', [Some 3]), (str ''Q2'', [Some 3])] \<rparr>"

definition demo_unanswered :: loaded where
  "demo_unanswered =
     \<lparr> nrows = 2, timestamp_col = str ''Timestamp'', comment_col = None, comment_cells = [],
       questions = [(str ''Q1'', [Some 5, Some 5]),
                    (str ''Q2'', [None, None]),
                    (str ''Q3'', [Some 1, Some 1])] \<rparr>"

section \<open>Score colours\<close>

text \<open>
  C5. \<open>score_color\<close> gives the good colour from 4.0 up, the neutral colour from 3.0 up
  to below 4.0, the attention colour below 3.0, and the neutral colour for a missing
  score; the three colours differ.
\<close>

theorem score_color_thresholds:
  "(4 \<le> x \<longrightarrow> score_color (Some x) = GOOD)
   \<and> (3 \<le> x \<and> x < 4 \<longrightarrow> score_color (Some x) = NEUTRAL)
   \<and> (x < 3 \<longrightarrow> score_color (Some x) = BAD)
   \<and> score_color None = NEUTRAL
   \<and> GOOD \<noteq> NEUTRAL \<and> NEUTRAL \<noteq> BAD \<and> GOOD \<noteq> BAD"
  by (simp add: score_color_def GOOD_def NEUTRAL_def BAD_def str_def)

theorem score_color_thresholds_witness:
  "score_color (Some 4) = GOOD \<and> score_color (Some 3) = NEUTRAL
   \<and> score_color (Some (299 / 100)) = BAD \<and> score_color None = NEUTRAL"
  using score_color_thresholds [of 4] score_color_thresholds [of 3]
    score_color_thresholds [of "299 / 100"]
  by simp

section \<open>Loading\<close>

lemma to_numeric_cell_coerce: "to_numeric_cell P Coerce c = Inr (spec_coerce P c)"
  by (simp add: to_numeric_cell_def spec_coerce_def split: cell.split option.split)

lemma to_numeric_coerce: "to_numeric P Coerce cells = Inr (map (spec_coerce P) cells)"
  by (induction cells) (simp_all add: to_numeric_cell_coerce)

lemma convert_questions_eq:
  "convert_questions P qs frame
   = Inr (map (\<lambda>col. (fst col, map (spec_coerce P) (snd col)))
            (filter (\<lambda>col. fst col \<in> set qs) frame))"
  by (induction frame) (simp_all add: to_numeric_coerce)

lemma map_fst_assign: "map fst (assign c f frame) = map fst frame"
  by (simp add: assign_def)

lemma filter_assign:
  "filter (\<lambda>col. Q (fst col) \<and> fst col \<noteq> c) (assign c f frame)
   = filter (\<lambda>col. Q (fst col) \<and> fst col \<noteq> c) frame"
  by (induction frame) (simp_all add: assign_def)

lemma len_assign_to_datetime: "len (assign c (to_datetime P) frame) = len frame"
  by (cases frame) (simp_all add: len_def assign_def to_datetime_def)

lemma find_question_cols_mem:
  "col \<in> set frame \<Longrightarrow>
   fst col \<in> set (find_question_cols (map fst frame) ts cc)
   \<longleftrightarrow> (Some (fst col) \<noteq> cc \<and> fst col \<noteq> ts)"
  by (auto simp: find_question_cols_def)

lemma load_eq:
  assumes "frame \<noteq> []"
  shows "load P frame =
     Inr \<lparr> nrows = len frame,
           timestamp_col = (case find is_timestamp_name (map fst frame) of
                              Some c \<Rightarrow> c | None \<Rightarrow> fst (hd frame)),
           comment_col = find is_comment_name (map fst frame),
           comment_cells =
             (case find (\<lambda>col. Some (fst col) = find is_comment_name (map fst frame))
                     (assign (case find is_timestamp_name (map fst frame) of
                                Some c \<Rightarrow> c | None \<Rightarrow> fst (hd frame)) (to_datetime P) frame) of
                None \<Rightarrow> [] | Some col \<Rightarrow> snd col),
           questions =
             map (\<lambda>col. (fst col, map (spec_coerce P) (snd col)))
               (filter (\<lambda>col. Some (fst col) \<noteq> find is_comment_name (map fst frame)
                             \<and> fst col \<noteq> (case find is_timestamp_name (map fst frame) of
                                             Some c \<Rightarrow> c | None \<Rightarrow> fst (hd frame))) frame) \<rparr>"
proof -
  define ts where "ts = (case find is_timestamp_name (map fst frame) of
                              Some c \<Rightarrow> c | None \<Rightarrow> fst (hd frame))"
  define cc where "cc = find is_comment_name (map fst frame)"
  define frame1 where "frame1 = assign ts (to_datetime P) frame"
  have ts: "find_timestamp_col (map fst frame) = Inr ts"
    using assms by (cases frame) (simp_all add: find_timestamp_col_def ts_def split: option.split)
  have names: "map fst frame1 = map fst frame"
    by (simp add: frame1_def map_fst_assign)
  have "filter (\<lambda>col. fst col \<in> set (find_question_cols (map fst frame) ts cc)) frame1
        = filter (\<lambda>col. Some (fst col) \<noteq> cc \<and> fst col \<noteq> ts) frame1"
    by (rule filter_cong) (simp_all add: find_question_cols_mem [of _ frame1, unfolded names])
  also have "\<dots> = filter (\<lambda>col. Some (fst col) \<noteq> cc \<and> fst col \<noteq> ts) frame"
    unfolding frame1_def by (rule filter_assign)
  finally have qs:
    "filter (\<lambda>col. fst col \<in> set (find_question_cols (map fst frame) ts cc))
       (assign ts (to_datetime P) frame)
     = filter (\<lambda>col. Some (fst col) \<noteq> cc \<and> fst col \<noteq> ts) frame"
    by (simp only: frame1_def)
  have "load P frame =
     Inr \<lparr> nrows = len frame, timestamp_col = ts, comment_col = cc,
           comment_cells = (case find (\<lambda>col. Some (fst col) = cc) frame1 of
                              None \<Rightarrow> [] | Some col \<Rightarrow> snd col),
           questions = map (\<lambda>col. (fst col, map (spec_coerce P) (snd col)))
               (filter (\<lambda>col. Some (fst col) \<noteq> cc \<and> fst col \<noteq> ts) frame) \<rparr>"
    unfolding load_def ts
    by (simp add: Let_def convert_questions_eq find_comment_col_def map_fst_assign
        cc_def [symmetric] qs len_assign_to_datetime frame1_def)
  then show ?thesis
    by (simp only: ts_def cc_def frame1_def)
qed

lemma load_empty: "load P [] = Inl IndexError"
  by (simp add: load_def find_timestamp_col_def)

lemma load_rectangular:
  assumes "load P frame = Inr L" and "rectangular (len frame) frame"
  shows "rectangular (nrows L) (questions L)"
proof -
  have ne: "frame \<noteq> []" using assms(1) by (auto simp: load_empty)
  from assms(1) [unfolded load_eq [OF ne]]
  have n: "nrows L = len frame" and "\<exists>Q. map snd (questions L)
      = map (\<lambda>col. map (spec_coerce P) (snd col)) (filter Q frame)"
    by (auto simp: comp_def)
  then obtain Q where q: "map snd (questions L)
      = map (\<lambda>col. map (spec_coerce P) (snd col)) (filter Q frame)"
    by blast
  have "\<forall>vs\<in>set (map snd (questions L)). length vs = len frame"
    unfolding q using assms(2) by (auto simp: rectangular_def list_all_iff)
  then show ?thesis
    by (simp add: rectangular_def list_all_iff n)
qed

lemma load_demo: "load demo_pandas demo_frame = Inr demo_loaded"
  by (simp add: load_eq demo_frame_def demo_loaded_def demo_pandas_def len_def
      is_timestamp_name_def is_comment_name_def lower_def lower_char_def startswith_def
      spec_coerce_def assign_def to_datetime_def str_def)

lemma load_survey: "load demo_pandas demo_survey = Inr demo_survey_loaded"
  by (simp add: load_eq demo_survey_def demo_survey_loaded_def demo_pandas_def len_def
      is_timestamp_name_def is_comment_name_def lower_def lower_char_def startswith_def
      spec_coerce_def assign_def to_datetime_def str_def)

lemma rectangular_demo: "rectangular (len demo_frame) demo_frame"
  by (simp add: demo_frame_def rectangular_def len_def)

lemma stacked_demo: "stacked demo_loaded = [1, 3, 5, 5 / 2]"
  by (simp add: stacked_def demo_loaded_def stack_row_def cell_at_def List.map_filter_simps
      upt_conv_Cons)

lemma startswith_iff: "startswith s p \<longleftrightarrow> (\<exists>rest. s = p @ rest)"
proof
  assume "startswith s p"
  then have "s = p @ drop (length p) s"
    by (metis append_take_drop_id startswith_def)
  then show "\<exists>rest. s = p @ rest" ..
next
  assume "\<exists>rest. s = p @ rest"
  then show "startswith s p" by (auto simp: startswith_def)
qed

lemma contains_iff: "contains s p \<longleftrightarrow> (\<exists>a b. s = a @ p @ b)"
proof (induction s)
  case Nil
  then show ?case by auto
next
  case (Cons c s)
  show ?case
  proof
    assume "contains (c # s) p"
    then consider "startswith (c # s) p" | "contains s p" by auto
    then show "\<exists>a b. c # s = a @ p @ b"
    proof cases
      case 1
      then obtain rest where "c # s = p @ rest" by (auto simp: startswith_iff)
      then have "c # s = [] @ p @ rest" by simp
      then show ?thesis by blast
    next
      case 2
      then obtain a b where "s = a @ p @ b" using Cons.IH by blast
      then have "c # s = (c # a) @ p @ b" by simp
      then show ?thesis by blast
    qed
  next
    assume "\<exists>a b. c # s = a @ p @ b"
    then obtain a b where ab: "c # s = a @ p @ b" by blast
    show "contains (c # s) p"
    proof (cases a)
      case Nil
      then have "startswith (c # s) p" using ab by (auto simp: startswith_iff)
      then show ?thesis by simp
    next
      case (Cons x a')
      then have "s = a' @ p @ b" using ab by simp
      then have "contains s p" using Cons.IH by blast
      then show ?thesis by simp
    qed
  qed
qed

lemma find_first:
  "\<forall>b\<in>set before. \<not> Q b \<Longrightarrow> Q c \<Longrightarrow> find Q (before @ c # after) = Some c"
  by (induction before) simp_all

lemma find_none: "\<forall>b\<in>set xs. \<not> Q b \<Longrightarrow> find Q xs = None"
  by (induction xs) simp_all

lemma load_fields:
  assumes "load P frame = Inr L"
  shows "nrows L = len frame"
    and "timestamp_col L = (case find is_timestamp_name (map fst frame) of
                              Some c \<Rightarrow> c | None \<Rightarrow> fst (hd frame))"
    and "comment_col L = find is_comment_name (map fst frame)"
    and "questions L
         = map (\<lambda>col. (fst col, map (spec_coerce P) (snd col)))
             (filter (\<lambda>col. fst col \<noteq> timestamp_col L \<and> Some (fst col) \<noteq> comment_col L) frame)"
    and "comment_cells L
         = (case find (\<lambda>col. Some (fst col) = comment_col L)
                   (assign (timestamp_col L) (to_datetime P) frame) of
              None \<Rightarrow> [] | Some col \<Rightarrow> snd col)"
proof -
  have ne: "frame \<noteq> []" using assms by (auto simp: load_empty)
  note e = assms [unfolded load_eq [OF ne], simplified, symmetric]
  show "nrows L = len frame" by (subst e) simp
  show ts: "timestamp_col L = (case find is_timestamp_name (map fst frame) of
                              Some c \<Rightarrow> c | None \<Rightarrow> fst (hd frame))" by (subst e) simp
  show cc: "comment_col L = find is_comment_name (map fst frame)" by (subst e) simp
  show "questions L
         = map (\<lambda>col. (fst col, map (spec_coerce P) (snd col)))
             (filter (\<lambda>col. fst col \<noteq> timestamp_col L \<and> Some (fst col) \<noteq> comment_col L) frame)"
    unfolding ts cc by (subst e) (simp add: conj_commute)
  show "comment_cells L
         = (case find (\<lambda>col. Some (fst col) = comment_col L)
                   (assign (timestamp_col L) (to_datetime P) frame) of
              None \<Rightarrow> [] | Some col \<Rightarrow> snd col)"
    unfolding ts cc by (subst e) simp
qed

lemma lower_char_iff:
  "97 \<le> y \<Longrightarrow> y \<le> 122 \<Longrightarrow> lower_char x = y \<longleftrightarrow> (x = y \<or> x + 32 = y)"
  by (auto simp: lower_char_def)

lemma lower_eq_iff:
  "\<forall>y\<in>set p. 97 \<le> y \<and> y \<le> 122 \<Longrightarrow> lower s = p \<longleftrightarrow> spec_ci_match s p"
proof (induction s arbitrary: p)
  case Nil
  then show ?case by (auto simp: lower_def spec_ci_match_def)
next
  case (Cons x s)
  show ?case
  proof (cases p)
    case Nil
    then show ?thesis by (simp add: lower_def spec_ci_match_def)
  next
    case (Cons y q)
    then have y: "97 \<le> y" "y \<le> 122" and q: "\<forall>z\<in>set q. 97 \<le> z \<and> z \<le> 122"
      using Cons.prems by simp_all
    have "lower s = q \<longleftrightarrow> spec_ci_match s q" using q by (rule Cons.IH)
    then show ?thesis
      using lower_char_iff [OF y, of x]
      by (simp add: Cons lower_def spec_ci_match_def)
  qed
qed

lemma lower_append: "lower (a @ b) = lower a @ lower b"
  by (simp add: lower_def)

lemma lower_split: "lower c = p @ r \<longleftrightarrow> (\<exists>a b. c = a @ b \<and> lower a = p \<and> lower b = r)"
  by (auto simp: lower_def map_eq_append_conv)

lemma pattern_chars:
  "\<forall>y\<in>set (str ''timestamp''). 97 \<le> y \<and> y \<le> 122"
  "\<forall>y\<in>set (str ''optional''). 97 \<le> y \<and> y \<le> 122"
  "\<forall>y\<in>set (str ''comment''). 97 \<le> y \<and> y \<le> 122"
  by (simp_all add: str_def)

lemma is_timestamp_name_iff:
  "is_timestamp_name c
   \<longleftrightarrow> (\<exists>pre rest. c = pre @ rest \<and> spec_ci_match pre (str ''timestamp''))"
proof -
  have "is_timestamp_name c \<longleftrightarrow> (\<exists>r. lower c = str ''timestamp'' @ r)"
    by (simp add: is_timestamp_name_def startswith_iff)
  also have "\<dots> \<longleftrightarrow> (\<exists>pre rest. c = pre @ rest \<and> lower pre = str ''timestamp'')"
    by (auto simp: lower_split)
  finally show ?thesis
    by (simp add: lower_eq_iff [OF pattern_chars(1)])
qed

lemma contains_lower_iff:
  assumes "\<forall>y\<in>set p. 97 \<le> y \<and> y \<le> 122"
  shows "contains (lower c) p \<longleftrightarrow> (\<exists>a m b. c = a @ m @ b \<and> spec_ci_match m p)"
proof -
  have "contains (lower c) p \<longleftrightarrow> (\<exists>x y. lower c = x @ p @ y)"
    by (rule contains_iff)
  also have "\<dots> \<longleftrightarrow> (\<exists>a m b. c = a @ m @ b \<and> lower m = p)"
  proof
    assume "\<exists>x y. lower c = x @ p @ y"
    then obtain x y where "lower c = x @ p @ y" by blast
    then obtain a r where ar: "c = a @ r" "lower a = x" "lower r = p @ y"
      by (auto simp: lower_split)
    then obtain m b where "r = m @ b" "lower m = p" "lower b = y"
      by (auto simp: lower_split)
    then show "\<exists>a m b. c = a @ m @ b \<and> lower m = p" using ar(1) by blast
  next
    assume "\<exists>a m b. c = a @ m @ b \<and> lower m = p"
    then obtain a m b where "c = a @ m @ b" "lower m = p" by blast
    then have "lower c = lower a @ p @ lower b" by (simp add: lower_append)
    then show "\<exists>x y. lower c = x @ p @ y" by blast
  qed
  finally show ?thesis
    by (simp add: lower_eq_iff [OF assms])
qed

lemma is_comment_name_iff:
  "is_comment_name c
   \<longleftrightarrow> (\<exists>a m b. c = a @ m @ b
         \<and> (spec_ci_match m (str ''optional'') \<or> spec_ci_match m (str ''comment'')))"
  unfolding is_comment_name_def
    contains_lower_iff [OF pattern_chars(2)] contains_lower_iff [OF pattern_chars(3)]
  by blast

text \<open>
  C8. Loading a table with at least one column never fails. The timestamp column is the
  first column whose name starts with \<open>timestamp\<close> without regard to case, and the
  first column when there is none; the comment column is the first column whose name
  contains \<open>optional\<close> or \<open>comment\<close> without regard to case, and absent when there
  is none; every other column is a question column, in column order, each cell read as a
  number, and a text that is no number read as missing.
\<close>

theorem column_roles:
  assumes "frame \<noteq> []"
  shows "\<exists>L. load P frame = Inr L
     \<and> (\<forall>before c after.
          map fst frame = before @ c # after \<and> is_timestamp_name c
          \<and> (\<forall>b\<in>set before. \<not> is_timestamp_name b) \<longrightarrow> timestamp_col L = c)
     \<and> ((\<forall>c\<in>set (map fst frame). \<not> is_timestamp_name c) \<longrightarrow> timestamp_col L = fst (hd frame))
     \<and> (\<forall>before c after.
          map fst frame = before @ c # after \<and> is_comment_name c
          \<and> (\<forall>b\<in>set before. \<not> is_comment_name b) \<longrightarrow> comment_col L = Some c)
     \<and> ((\<forall>c\<in>set (map fst frame). \<not> is_comment_name c) \<longrightarrow> comment_col L = None)
     \<and> questions L
         = map (\<lambda>col. (fst col, map (spec_coerce P) (snd col)))
             (filter (\<lambda>col. fst col \<noteq> timestamp_col L \<and> Some (fst col) \<noteq> comment_col L) frame)
     \<and> (\<forall>s. numeric_of P s = None \<longrightarrow> spec_coerce P (Txt s) = None)
     \<and> (\<forall>c. is_timestamp_name c
            \<longleftrightarrow> (\<exists>pre rest. c = pre @ rest \<and> spec_ci_match pre (str ''timestamp'')))
     \<and> (\<forall>c. is_comment_name c
            \<longleftrightarrow> (\<exists>a m b. c = a @ m @ b
                  \<and> (spec_ci_match m (str ''optional'') \<or> spec_ci_match m (str ''comment''))))"
proof -
  from load_eq [OF assms, of P] obtain L where L: "load P frame = Inr L"
    by blast
  note f = load_fields [OF L]
  have 1: "\<forall>before c after.
          map fst frame = before @ c # after \<and> is_timestamp_name c
          \<and> (\<forall>b\<in>set before. \<not> is_timestamp_name b) \<longrightarrow> timestamp_col L = c"
    by (simp add: f(2) find_first)
  have 2: "(\<forall>c\<in>set (map fst frame). \<not> is_timestamp_name c) \<longrightarrow> timestamp_col L = fst (hd frame)"
    using find_none [of "map fst frame" is_timestamp_name] by (simp add: f(2))
  have 3: "\<forall>before c after.
          map fst frame = before @ c # after \<and> is_comment_name c
          \<and> (\<forall>b\<in>set before. \<not> is_comment_name b) \<longrightarrow> comment_col L = Some c"
    by (simp add: f(3) find_first)
  have 4: "(\<forall>c\<in>set (map fst frame). \<not> is_comment_name c) \<longrightarrow> comment_col L = None"
    using find_none [of "map fst frame" is_comment_name] by (simp add: f(3))
  have 5: "questions L
         = map (\<lambda>col. (fst col, map (spec_coerce P) (snd col)))
             (filter (\<lambda>col. fst col \<noteq> timestamp_col L \<and> Some (fst col) \<noteq> comment_col L) frame)"
    by (rule f(4))
  have 6: "\<forall>s. numeric_of P s = None \<longrightarrow> spec_coerce P (Txt s) = None"
    by (simp add: spec_coerce_def)
  have 7: "\<forall>c. is_timestamp_name c
            \<longleftrightarrow> (\<exists>pre rest. c = pre @ rest \<and> spec_ci_match pre (str ''timestamp''))"
    using is_timestamp_name_iff by blast
  have 8: "\<forall>c. is_comment_name c
            \<longleftrightarrow> (\<exists>a m b. c = a @ m @ b
                  \<and> (spec_ci_match m (str ''optional'') \<or> spec_ci_match m (str ''comment'')))"
    using is_comment_name_iff by blast
  show ?thesis
    apply (rule exI [where x = L])
    apply (intro conjI)
            apply (rule L)
           apply (rule 1)
          apply (rule 2)
         apply (rule 3)
        apply (rule 4)
       apply (rule 5)
      apply (rule 6)
     apply (rule 7)
    apply (rule 8)
    done
qed

text \<open>
  In the sample the timestamp column is the second column, named \<open>TimeStamp (UTC)\<close>,
  the comment column is \<open>Your COMMENTS\<close>, and \<open>Optional score\<close>, the second column
  that matches, is a question column whose text \<open>n.a.\<close> is read as missing.
\<close>

theorem column_roles_witness:
  "load demo_pandas demo_survey = Inr demo_survey_loaded
   \<and> is_timestamp_name (str ''TimeStamp (UTC)'') \<and> \<not> is_timestamp_name (str ''Q1'')
   \<and> is_comment_name (str ''Your COMMENTS'') \<and> is_comment_name (str ''Optional score'')
   \<and> timestamp_col demo_survey_loaded = str ''TimeStamp (UTC)''
   \<and> comment_col demo_survey_loaded = Some (str ''Your COMMENTS'')
   \<and> questions demo_survey_loaded
       = [(str ''Q1'', [Some 4, Some 2, Some 3, None]),
          (str ''Optional score'', [Some 5, None, None, Some 1])]"
proof -
  have ne: "demo_survey \<noteq> []" by (simp add: demo_survey_def)
  have n: "is_timestamp_name (str ''TimeStamp (UTC)'')" "\<not> is_timestamp_name (str ''Q1'')"
    "is_comment_name (str ''Your COMMENTS'')" "is_comment_name (str ''Optional score'')"
    "\<not> is_comment_name (str ''Q1'')" "\<not> is_comment_name (str ''TimeStamp (UTC)'')"
    by (simp_all add: is_timestamp_name_def is_comment_name_def lower_def lower_char_def
        startswith_def str_def)
  have "\<exists>L. load demo_pandas demo_survey = Inr L
     \<and> (\<forall>before c after.
          map fst demo_survey = before @ c # after \<and> is_timestamp_name c
          \<and> (\<forall>b\<in>set before. \<not> is_timestamp_name b) \<longrightarrow> timestamp_col L = c)
     \<and> (\<forall>before c after.
          map fst demo_survey = before @ c # after \<and> is_comment_name c
          \<and> (\<forall>b\<in>set before. \<not> is_comment_name b) \<longrightarrow> comment_col L = Some c)
     \<and> questions L
         = map (\<lambda>col. (fst col, map (spec_coerce demo_pandas) (snd col)))
             (filter (\<lambda>col. fst col \<noteq> timestamp_col L \<and> Some (fst col) \<noteq> comment_col L)
                demo_survey)"
    using column_roles [OF ne, of demo_pandas]
    by (elim exE conjE) (intro exI conjI, assumption+)
  then have t: "\<forall>before c after.
          map fst demo_survey = before @ c # after \<and> is_timestamp_name c
          \<and> (\<forall>b\<in>set before. \<not> is_timestamp_name b) \<longrightarrow> timestamp_col demo_survey_loaded = c"
    and c: "\<forall>before c after.
          map fst demo_survey = before @ c # after \<and> is_comment_name c
          \<and> (\<forall>b\<in>set before. \<not> is_comment_name b) \<longrightarrow> comment_col demo_survey_loaded = Some c"
    and q: "questions demo_survey_loaded
         = map (\<lambda>col. (fst col, map (spec_coerce demo_pandas) (snd col)))
             (filter (\<lambda>col. fst col \<noteq> timestamp_col demo_survey_loaded
                           \<and> Some (fst col) \<noteq> comment_col demo_survey_loaded) demo_survey)"
    by (simp_all add: load_survey)
  have names: "map fst demo_survey
      = [str ''Q1''] @ str ''TimeStamp (UTC)'' # [str ''Your COMMENTS'', str ''Optional score'']"
    "map fst demo_survey
      = [str ''Q1'', str ''TimeStamp (UTC)''] @ str ''Your COMMENTS'' # [str ''Optional score'']"
    by (simp_all add: demo_survey_def)
  have ts: "timestamp_col demo_survey_loaded = str ''TimeStamp (UTC)''"
    by (rule t [rule_format, of "[str ''Q1'']" _ "[str ''Your COMMENTS'', str ''Optional score'']"])
      (simp add: names(1) n)
  have cc: "comment_col demo_survey_loaded = Some (str ''Your COMMENTS'')"
    by (rule c [rule_format, of "[str ''Q1'', str ''TimeStamp (UTC)'']" _ "[str ''Optional score'']"])
      (simp add: names(2) n)
  have qs: "questions demo_survey_loaded
       = [(str ''Q1'', [Some 4, Some 2, Some 3, None]),
          (str ''Optional score'', [Some 5, None, None, Some 1])]"
    unfolding q ts cc
    by (simp add: demo_survey_def spec_coerce_def demo_pandas_def str_def)
  from load_survey n(1) n(2) n(3) n(4) ts cc qs show ?thesis
    by (intro conjI)
qed

section \<open>Histograms\<close>

lemma sum_indicator_distinct:
  "distinct ks \<Longrightarrow> (\<Sum>k\<leftarrow>ks. if x = k then 1 else 0) = (if x \<in> set ks then 1 else (0::nat))"
  by (induction ks) auto

lemma sum_count_list_distinct:
  "distinct ks \<Longrightarrow> (\<Sum>k\<leftarrow>ks. count_list xs k) = length (filter (\<lambda>x. x \<in> set ks) xs)"
proof (induction xs)
  case Nil
  then show ?case by simp
next
  case (Cons x xs)
  have "(\<Sum>k\<leftarrow>ks. count_list (x # xs) k)
        = (\<Sum>k\<leftarrow>ks. count_list xs k) + (\<Sum>k\<leftarrow>ks. if x = k then 1 else 0)"
    by (simp add: sum_list_addf [symmetric]) (rule arg_cong [where f = sum_list], simp)
  then show ?case
    using Cons by (simp add: sum_indicator_distinct)
qed

lemma reindex_value_counts_snd:
  "map snd (reindex ks 0 (\<lambda>k. value_counts xs (g k))) = map (\<lambda>k. count_list xs (g k)) ks"
  by (simp add: reindex_def value_counts_def count_list_0_iff)

lemma sum_reindex_value_counts:
  assumes "distinct (map g ks)"
  shows "sum_list (map snd (reindex ks 0 (\<lambda>k. value_counts xs (g k))))
         = length (filter (\<lambda>x. x \<in> g ` set ks) xs)"
proof -
  have "sum_list (map snd (reindex ks 0 (\<lambda>k. value_counts xs (g k))))
        = (\<Sum>k\<leftarrow>map g ks. count_list xs k)"
    by (simp add: reindex_value_counts_snd comp_def)
  also have "\<dots> = length (filter (\<lambda>x. x \<in> set (map g ks)) xs)"
    using assms by (rule sum_count_list_distinct)
  finally show ?thesis by simp
qed

lemma dist_chart_sum:
  "sum_list (map snd (dist_chart vs))
   = length (filter (\<lambda>v. v \<in> (\<lambda>k. Some (of_int k)) ` set scores) vs)"
  unfolding dist_chart_def
  by (rule sum_reindex_value_counts) (simp add: scores_def)

lemma total_answers_filter:
  "total_answers L = length (filter (\<lambda>x. round_half_even x \<in> set scores) (stacked L))"
proof -
  have "total_answers L
        = length (filter (\<lambda>x. x \<in> (\<lambda>k. k) ` set scores) (map round_half_even (stacked L)))"
    unfolding total_answers_def dist_counts_def
    by (rule sum_reindex_value_counts) (simp add: scores_def)
  then show ?thesis by (simp add: length_filter_map comp_def)
qed


lemma mset_map_filter_sum:
  "mset (List.map_filter f xs)
   = (\<Sum>x\<leftarrow>xs. case f x of None \<Rightarrow> {#} | Some v \<Rightarrow> {#v#})"
  by (induction xs) (simp_all add: List.map_filter_simps split: option.split)

lemma map_cell_at: "map (cell_at vs) [0..<length vs] = vs"
  by (rule nth_equalityI) (simp_all add: cell_at_def)

lemma map_filter_map_id: "List.map_filter id (map f xs) = List.map_filter f xs"
  by (induction xs) (simp_all add: List.map_filter_simps split: option.split)

lemma present_as_rows:
  "mset (present vs)
   = (\<Sum>i\<leftarrow>[0..<length vs]. case cell_at vs i of None \<Rightarrow> {#} | Some v \<Rightarrow> {#v#})"
proof -
  have "present vs = List.map_filter (cell_at vs) [0..<length vs]"
    using map_filter_map_id [of "cell_at vs" "[0..<length vs]"]
    by (simp only: present_def map_cell_at)
  then show ?thesis by (simp add: mset_map_filter_sum)
qed

lemma mset_stack_rows:
  "rectangular k qs \<Longrightarrow>
   mset (concat (map (stack_row qs) [0..<k])) = mset (concat (map (\<lambda>col. present (snd col)) qs))"
proof (induction qs)
  case Nil
  have "concat (map (stack_row []) [0..<k]) = []"
    by (induction k) (simp_all add: stack_row_def List.map_filter_simps)
  then show ?case by simp
next
  case (Cons col qs)
  then have len: "length (snd col) = k" and rect: "rectangular k qs"
    by (simp_all add: rectangular_def)
  have "mset (concat (map (stack_row (col # qs)) [0..<k]))
        = (\<Sum>i\<leftarrow>[0..<k]. (case cell_at (snd col) i of None \<Rightarrow> {#} | Some v \<Rightarrow> {#v#})
              + mset (stack_row qs i))"
    unfolding mset_concat map_map comp_def
    by (rule arg_cong [where f = sum_list])
      (simp add: stack_row_def List.map_filter_simps split: option.split)
  also have "\<dots> = mset (present (snd col)) + mset (concat (map (stack_row qs) [0..<k]))"
    by (simp add: sum_list_addf present_as_rows len mset_concat comp_def)
  finally show ?case
    using Cons.IH [OF rect] by simp
qed


lemma length_present: "length (present vs) = spec_non_missing vs"
  unfolding present_def spec_non_missing_def
  by (induction vs) (auto simp: List.map_filter_simps split: option.split)

lemma set_present: "set (present vs) = {x. Some x \<in> set vs}"
  unfolding present_def
  by (induction vs) (auto simp: List.map_filter_simps split: option.split)

lemma length_spec_pooled: "length (spec_pooled L) = spec_pooled_count L"
  by (simp add: spec_pooled_def spec_pooled_count_def length_concat comp_def length_present)

lemma mset_stacked:
  assumes "rectangular (nrows L) (questions L)"
  shows "mset (stacked L) = mset (spec_pooled L)"
proof (cases "questions L = []")
  case True
  then show ?thesis by (simp add: stacked_def spec_pooled_def)
next
  case False
  then show ?thesis
    using mset_stack_rows [OF assms] by (simp add: stacked_def spec_pooled_def)
qed

lemma length_filter_mset_eq:
  "mset xs = mset ys \<Longrightarrow> length (filter Q xs) = length (filter Q ys)"
  by (metis mset_filter size_mset)

lemma total_answers_pooled:
  assumes "rectangular (nrows L) (questions L)"
  shows "total_answers L
         = length (filter (\<lambda>x. round_half_even x \<in> {1, 2, 3, 4, 5}) (spec_pooled L))"
  using length_filter_mset_eq [OF mset_stacked [OF assms]]
  by (simp add: total_answers_filter scores_def)

lemma total_answers_in_range:
  assumes "rectangular (nrows L) (questions L)"
    and "\<forall>x\<in>set (spec_pooled L). round_half_even x \<in> {1, 2, 3, 4, 5}"
  shows "total_answers L = spec_pooled_count L"
proof -
  have "filter (\<lambda>x. round_half_even x \<in> {1, 2, 3, 4, 5}) (spec_pooled L) = spec_pooled L"
    using assms(2) by (simp add: filter_id_conv)
  then show ?thesis
    using total_answers_pooled [OF assms(1)] by (simp add: length_spec_pooled)
qed

lemma map_fst_reindex: "map fst (reindex ks fill m) = ks"
  by (simp add: reindex_def comp_def)

text \<open>
  C1 (as amended). For a question column whose non-missing values are all whole
  scores from 1 to 5, the buckets of the per-question bar chart are the scores 1 to 5
  and their counts sum to the number of non-missing values of the column.
\<close>

theorem dist_chart_counts_sum:
  assumes "\<forall>v\<in>set vs. v \<noteq> None \<longrightarrow> v \<in> Some ` {1, 2, 3, 4, 5}"
  shows "map fst (dist_chart vs) = [1, 2, 3, 4, 5]
         \<and> sum_list (map snd (dist_chart vs)) = spec_non_missing vs"
proof -
  have "filter (\<lambda>v. v \<in> (\<lambda>k. Some (of_int k)) ` set scores) vs = filter (\<lambda>v. v \<noteq> None) vs"
    by (rule filter_cong) (use assms in \<open>auto simp: scores_def\<close>)
  then show ?thesis
    by (simp add: dist_chart_sum spec_non_missing_def)
      (simp add: dist_chart_def map_fst_reindex scores_def)
qed

theorem dist_chart_counts_sum_witness:
  "map fst (dist_chart [Some 1, None, Some 5, Some 5]) = [1, 2, 3, 4, 5]
   \<and> sum_list (map snd (dist_chart [Some 1, None, Some 5, Some 5])) = 3
   \<and> spec_non_missing [Some 1, None, Some 5, Some 5] = 3"
  using dist_chart_counts_sum [of "[Some 1, None, Some 5, Some 5]"]
  by (simp add: spec_non_missing_def)

text \<open>
  A column with the answers 5 and 6 has two non-missing values, and its buckets sum
  to 1.
\<close>

theorem dist_chart_counts_sum_counterexample:
  "sum_list (map snd (dist_chart [Some 5, Some 6])) \<noteq> spec_non_missing [Some 5, Some 6]"
  by (simp add: dist_chart_def reindex_def value_counts_def scores_def spec_non_missing_def)

lemma map_fst_dist_counts: "map fst (dist_counts L) = [1, 2, 3, 4, 5]"
  by (simp add: dist_counts_def map_fst_reindex scores_def)

text \<open>
  C2 (as amended). For every loaded table, the buckets of the pooled histogram are the
  scores 1 to 5 and their counts sum to the number of non-missing question values,
  pooled over all question columns, whose rounded score lies in 1 to 5; when every
  value rounds to a score from 1 to 5 this is the total number of non-missing values.
\<close>

theorem pooled_histogram_sum:
  assumes "load P frame = Inr L" and "rectangular (len frame) frame"
  shows "map fst (dist_counts L) = [1, 2, 3, 4, 5]
     \<and> sum_list (map snd (dist_counts L))
         = length (filter (\<lambda>x. round_half_even x \<in> {1, 2, 3, 4, 5}) (spec_pooled L))
     \<and> ((\<forall>x\<in>set (spec_pooled L). round_half_even x \<in> {1, 2, 3, 4, 5})
          \<longrightarrow> sum_list (map snd (dist_counts L)) = spec_pooled_count L)"
proof -
  have r: "rectangular (nrows L) (questions L)"
    using assms by (rule load_rectangular)
  show ?thesis
    using total_answers_pooled [OF r] total_answers_in_range [OF r]
    by (simp add: map_fst_dist_counts total_answers_def)
qed

lemma spec_pooled_demo: "spec_pooled demo_loaded = [1, 5, 3, 5 / 2]"
  by (simp add: spec_pooled_def demo_loaded_def present_def List.map_filter_simps)

lemma round_demo:
  "round_half_even 1 = 1" "round_half_even 5 = 5" "round_half_even 3 = 3"
  "round_half_even (5 / 2) = 2" "round_half_even 6 = 6"
proof -
  have f: "\<lfloor>5 / 2 :: rat\<rfloor> = 2" by (simp add: floor_eq_iff)
  show "round_half_even 1 = 1" "round_half_even 5 = 5" "round_half_even 3 = 3"
    "round_half_even 6 = 6"
    by (simp_all add: round_half_even_def Let_def)
  show "round_half_even (5 / 2) = 2"
    by (simp add: round_half_even_def Let_def f)
qed

theorem pooled_histogram_sum_witness:
  "load demo_pandas demo_frame = Inr demo_loaded
   \<and> rectangular (len demo_frame) demo_frame
   \<and> list_all (\<lambda>x. round_half_even x \<in> {1, 2, 3, 4, 5}) (spec_pooled demo_loaded)
   \<and> sum_list (map snd (dist_counts demo_loaded)) = 4
   \<and> spec_pooled_count demo_loaded = 4"
proof -
  have "list_all (\<lambda>x. round_half_even x \<in> {1, 2, 3, 4, 5}) (spec_pooled demo_loaded)"
    unfolding spec_pooled_demo list.pred_inject by (simp only: round_demo) simp
  then have inr: "\<forall>x\<in>set (spec_pooled demo_loaded). round_half_even x \<in> {1, 2, 3, 4, 5}"
    by (simp only: list_all_iff)
  have c: "spec_pooled_count demo_loaded = 4"
    by (simp add: spec_pooled_count_def spec_non_missing_def demo_loaded_def del: not_None_eq)
  have la: "list_all (\<lambda>x. round_half_even x \<in> {1, 2, 3, 4, 5}) (spec_pooled demo_loaded)"
    using inr by (simp only: list_all_iff)
  from pooled_histogram_sum [OF load_demo rectangular_demo] inr
  have "sum_list (map snd (dist_counts demo_loaded)) = spec_pooled_count demo_loaded"
    by blast
  then have s: "sum_list (map snd (dist_counts demo_loaded)) = 4"
    by (simp only: c)
  from load_demo rectangular_demo la s c show ?thesis
    by (intro conjI)
qed

text \<open>
  A table with the single answer 6 has one non-missing value, and its pooled buckets sum
  to 0.
\<close>

theorem pooled_histogram_sum_counterexample:
  "load demo_pandas [(str ''Timestamp'', [Txt (str ''2025-01-01'')]), (str ''Q1'', [Num 6])]
     = Inr \<lparr> nrows = 1, timestamp_col = str ''Timestamp'', comment_col = None,
             comment_cells = [], questions = [(str ''Q1'', [Some 6])] \<rparr>
   \<and> sum_list (map snd (dist_counts
         \<lparr> nrows = 1, timestamp_col = str ''Timestamp'', comment_col = None,
           comment_cells = [], questions = [(str ''Q1'', [Some 6])] \<rparr>)) = 0
   \<and> spec_pooled_count
         \<lparr> nrows = 1, timestamp_col = str ''Timestamp'', comment_col = None,
           comment_cells = [], questions = [(str ''Q1'', [Some 6])] \<rparr> = 1"
proof -
  have a: "load demo_pandas [(str ''Timestamp'', [Txt (str ''2025-01-01'')]), (str ''Q1'', [Num 6])]
     = Inr \<lparr> nrows = 1, timestamp_col = str ''Timestamp'', comment_col = None,
             comment_cells = [], questions = [(str ''Q1'', [Some 6])] \<rparr>"
    by (simp add: load_eq demo_pandas_def len_def
      is_timestamp_name_def is_comment_name_def lower_def lower_char_def startswith_def
      spec_coerce_def assign_def to_datetime_def str_def)
  have b: "sum_list (map snd (dist_counts
         \<lparr> nrows = 1, timestamp_col = str ''Timestamp'', comment_col = None,
           comment_cells = [], questions = [(str ''Q1'', [Some 6])] \<rparr>)) = 0"
    by (simp add: dist_counts_def stacked_def stack_row_def cell_at_def List.map_filter_simps
        reindex_def value_counts_def scores_def round_demo)
  have c: "spec_pooled_count
         \<lparr> nrows = 1, timestamp_col = str ''Timestamp'', comment_col = None,
           comment_cells = [], questions = [(str ''Q1'', [Some 6])] \<rparr> = 1"
    by (simp add: spec_pooled_count_def spec_non_missing_def del: not_None_eq)
  from a b c show ?thesis by (intro conjI)
qed

text \<open>
  C3 (as amended). The number shown as "Total answers" is the number of non-missing
  answers, pooled over all question columns, whose rounded score lies in 1 to 5 (the
  sum of the pooled histogram's bucket counts), divided by 5; when every answer rounds
  to a score from 1 to 5 this is the number of non-missing answers divided by 5.
\<close>

theorem total_answers_kpi_value:
  assumes "load P frame = Inr L" and "rectangular (len frame) frame"
  shows "run P frame = Inr (report_of P L)
     \<and> rp_total_answers (report_of P L)
         = of_nat (length (filter (\<lambda>x. round_half_even x \<in> {1, 2, 3, 4, 5}) (spec_pooled L))) / 5
     \<and> rp_total_answers (report_of P L) = of_nat (sum_list (map snd (dist_counts L))) / 5
     \<and> ((\<forall>x\<in>set (spec_pooled L). round_half_even x \<in> {1, 2, 3, 4, 5})
          \<longrightarrow> rp_total_answers (report_of P L) = of_nat (spec_pooled_count L) / 5)"
proof -
  have r: "rectangular (nrows L) (questions L)"
    using assms by (rule load_rectangular)
  show ?thesis
    using total_answers_in_range [OF r] total_answers_pooled [OF r]
    by (simp add: run_def assms(1) report_of_def total_answers_kpi_def total_answers_def)
qed

text \<open>
  A table with the single answer 6 has one non-missing answer, and the number shown
  is 0.
\<close>

theorem total_answers_kpi_value_counterexample:
  "load demo_pandas [(str ''Timestamp'', [Txt (str ''2025-01-01'')]), (str ''Q1'', [Num 6])]
     = Inr \<lparr> nrows = 1, timestamp_col = str ''Timestamp'', comment_col = None,
             comment_cells = [], questions = [(str ''Q1'', [Some 6])] \<rparr>
   \<and> spec_pooled_count
         \<lparr> nrows = 1, timestamp_col = str ''Timestamp'', comment_col = None,
           comment_cells = [], questions = [(str ''Q1'', [Some 6])] \<rparr> = 1
   \<and> rp_total_answers (report_of demo_pandas
         \<lparr> nrows = 1, timestamp_col = str ''Timestamp'', comment_col = None,
           comment_cells = [], questions = [(str ''Q1'', [Some 6])] \<rparr>) = 0"
proof -
  have a: "load demo_pandas [(str ''Timestamp'', [Txt (str ''2025-01-01'')]), (str ''Q1'', [Num 6])]
     = Inr \<lparr> nrows = 1, timestamp_col = str ''Timestamp'', comment_col = None,
             comment_cells = [], questions = [(str ''Q1'', [Some 6])] \<rparr>"
    by (simp add: load_eq demo_pandas_def len_def
      is_timestamp_name_def is_comment_name_def lower_def lower_char_def startswith_def
      spec_coerce_def assign_def to_datetime_def str_def)
  have b: "spec_pooled_count
         \<lparr> nrows = 1, timestamp_col = str ''Timestamp'', comment_col = None,
           comment_cells = [], questions = [(str ''Q1'', [Some 6])] \<rparr> = 1"
    by (simp add: spec_pooled_count_def spec_non_missing_def del: not_None_eq)
  have c: "rp_total_answers (report_of demo_pandas
         \<lparr> nrows = 1, timestamp_col = str ''Timestamp'', comment_col = None,
           comment_cells = [], questions = [(str ''Q1'', [Some 6])] \<rparr>) = 0"
    by (simp add: report_of_def total_answers_kpi_def total_answers_def dist_counts_def
        stacked_def stack_row_def cell_at_def List.map_filter_simps
        reindex_def value_counts_def scores_def round_demo)
  from a b c show ?thesis by (intro conjI)
qed

theorem total_answers_kpi_value_witness:
  "load demo_pandas demo_frame = Inr demo_loaded
   \<and> rectangular (len demo_frame) demo_frame
   \<and> run demo_pandas demo_frame = Inr (report_of demo_pandas demo_loaded)
   \<and> spec_pooled_count demo_loaded = 4
   \<and> rp_total_answers (report_of demo_pandas demo_loaded) = 4 / 5"
proof -
  have "list_all (\<lambda>x. round_half_even x \<in> {1, 2, 3, 4, 5}) (spec_pooled demo_loaded)"
    unfolding spec_pooled_demo list.pred_inject by (simp only: round_demo) simp
  then have inr: "\<forall>x\<in>set (spec_pooled demo_loaded). round_half_even x \<in> {1, 2, 3, 4, 5}"
    by (simp only: list_all_iff)
  have c: "spec_pooled_count demo_loaded = 4"
    by (simp add: spec_pooled_count_def spec_non_missing_def demo_loaded_def del: not_None_eq)
  from total_answers_kpi_value [OF load_demo rectangular_demo] inr
  have "run demo_pandas demo_frame = Inr (report_of demo_pandas demo_loaded)"
    and "rp_total_answers (report_of demo_pandas demo_loaded)
         = of_nat (spec_pooled_count demo_loaded) / 5"
    by blast+
  then have k: "run demo_pandas demo_frame = Inr (report_of demo_pandas demo_loaded)"
    and v: "rp_total_answers (report_of demo_pandas demo_loaded) = 4 / 5"
    by (simp_all only: c of_nat_numeral)
  from load_demo rectangular_demo k c v show ?thesis
    by (intro conjI)
qed

section \<open>No data\<close>

lemma stacked_empty:
  assumes "rectangular (nrows L) (questions L)" and "spec_pooled_count L = 0"
  shows "stacked L = []"
proof -
  have "spec_pooled L = []"
    using assms(2) length_spec_pooled [of L] by simp
  then show ?thesis
    using mset_stacked [OF assms(1)] by simp
qed

lemma total_answers_empty: "stacked L = [] \<Longrightarrow> total_answers L = 0"
  by (simp add: total_answers_filter)

lemma dist_percent_zero:
  "total_answers L = 0 \<Longrightarrow> dist_percent L = [Some 0, Some 0, Some 0, Some 0, Some 0]"
  by (simp add: dist_percent_def dist_counts_def reindex_def scores_def)

lemma dist_percent_defined: "None \<notin> set (dist_percent L)"
  by (auto simp: dist_percent_def float_div_def)

lemma pooled_count_no_data:
  assumes "rectangular (nrows L) (questions L)" and "nrows L = 0 \<or> questions L = []"
  shows "spec_pooled_count L = 0"
proof -
  have "\<forall>col\<in>set (questions L). spec_non_missing (snd col) = 0"
    using assms by (auto simp: rectangular_def list_all_iff spec_non_missing_def)
  then show ?thesis
    by (simp add: spec_pooled_count_def)
qed

text \<open>
  C9. A table with at least one column always yields a report, and no percentage of the
  pooled distribution is ever the result of a division by zero. When no question value
  is present (no rows, or no question column) the total is 0, every percentage is set to
  0, the pie chart is the single slice "No data", and the overall mean is missing.
\<close>

theorem zero_answers_report:
  assumes "frame \<noteq> []" and "rectangular (len frame) frame"
  shows "\<exists>L. load P frame = Inr L \<and> run P frame = Inr (report_of P L)
     \<and> None \<notin> set (rp_percent (report_of P L))
     \<and> (nrows L = 0 \<or> questions L = [] \<longrightarrow> spec_pooled_count L = 0)
     \<and> (spec_pooled_count L = 0 \<longrightarrow>
          total_answers L = 0
          \<and> rp_percent (report_of P L) = [Some 0, Some 0, Some 0, Some 0, Some 0]
          \<and> rp_pie (report_of P L)
              = \<lparr> pie_names = [Name (str ''No data'')], pie_values = [1],
                  pie_title = str ''Overall distribution (1'' @ [8211] @ str ''5)'' \<rparr>
          \<and> rp_overall_mean (report_of P L) = None)"
proof -
  from load_eq [OF assms(1), of P] obtain L where L: "load P frame = Inr L"
    by blast
  have r: "rectangular (nrows L) (questions L)"
    using L assms(2) by (rule load_rectangular)
  have 1: "run P frame = Inr (report_of P L)"
    by (simp add: run_def L)
  have 2: "None \<notin> set (rp_percent (report_of P L))"
    by (simp add: report_of_def dist_percent_defined)
  have 3: "nrows L = 0 \<or> questions L = [] \<longrightarrow> spec_pooled_count L = 0"
    using pooled_count_no_data [OF r] by blast
  have 4: "spec_pooled_count L = 0 \<longrightarrow>
          total_answers L = 0
          \<and> rp_percent (report_of P L) = [Some 0, Some 0, Some 0, Some 0, Some 0]
          \<and> rp_pie (report_of P L)
              = \<lparr> pie_names = [Name (str ''No data'')], pie_values = [1],
                  pie_title = str ''Overall distribution (1'' @ [8211] @ str ''5)'' \<rparr>
          \<and> rp_overall_mean (report_of P L) = None"
  proof
    assume "spec_pooled_count L = 0"
    then have s: "stacked L = []" using r by (simp add: stacked_empty)
    then have t: "total_answers L = 0" by (rule total_answers_empty)
    show "total_answers L = 0
          \<and> rp_percent (report_of P L) = [Some 0, Some 0, Some 0, Some 0, Some 0]
          \<and> rp_pie (report_of P L)
              = \<lparr> pie_names = [Name (str ''No data'')], pie_values = [1],
                  pie_title = str ''Overall distribution (1'' @ [8211] @ str ''5)'' \<rparr>
          \<and> rp_overall_mean (report_of P L) = None"
      by (simp add: report_of_def t dist_percent_zero pie_chart_def overall_mean_def s)
  qed
  show ?thesis
    apply (rule exI [where x = L])
    apply (intro conjI)
        apply (rule L)
       apply (rule 1)
      apply (rule 2)
     apply (rule 3)
    apply (rule 4)
    done
qed

theorem zero_answers_report_witness:
  "load demo_pandas [(str ''Timestamp'', []), (str ''Q1'', [])]
     = Inr \<lparr> nrows = 0, timestamp_col = str ''Timestamp'', comment_col = None,
             comment_cells = [], questions = [(str ''Q1'', [])] \<rparr>
   \<and> rp_percent (report_of demo_pandas
         \<lparr> nrows = 0, timestamp_col = str ''Timestamp'', comment_col = None,
           comment_cells = [], questions = [(str ''Q1'', [])] \<rparr>)
       = [Some 0, Some 0, Some 0, Some 0, Some 0]
   \<and> pie_names (rp_pie (report_of demo_pandas
         \<lparr> nrows = 0, timestamp_col = str ''Timestamp'', comment_col = None,
           comment_cells = [], questions = [(str ''Q1'', [])] \<rparr>))
       = [Name (str ''No data'')]"
proof -
  let ?F = "[(str ''Timestamp'', []), (str ''Q1'', [])] :: dataframe"
  let ?L = "\<lparr> nrows = 0, timestamp_col = str ''Timestamp'', comment_col = None,
             comment_cells = [], questions = [(str ''Q1'', [])] \<rparr>"
  have ne: "?F \<noteq> []" by simp
  have rect: "rectangular (len ?F) ?F" by (simp add: rectangular_def len_def)
  have a: "load demo_pandas ?F = Inr ?L"
    by (simp add: load_eq demo_pandas_def len_def
      is_timestamp_name_def is_comment_name_def lower_def lower_char_def startswith_def
      spec_coerce_def assign_def to_datetime_def str_def)
  have z: "spec_pooled_count ?L = 0"
    by (simp add: spec_pooled_count_def spec_non_missing_def)
  have "\<exists>L. load demo_pandas ?F = Inr L
     \<and> (spec_pooled_count L = 0 \<longrightarrow>
          total_answers L = 0
          \<and> rp_percent (report_of demo_pandas L) = [Some 0, Some 0, Some 0, Some 0, Some 0]
          \<and> rp_pie (report_of demo_pandas L)
              = \<lparr> pie_names = [Name (str ''No data'')], pie_values = [1],
                  pie_title = str ''Overall distribution (1'' @ [8211] @ str ''5)'' \<rparr>
          \<and> rp_overall_mean (report_of demo_pandas L) = None)"
    using zero_answers_report [OF ne rect, of demo_pandas]
    by (elim exE conjE) (intro exI conjI, assumption+)
  then have "rp_percent (report_of demo_pandas ?L) = [Some 0, Some 0, Some 0, Some 0, Some 0]
          \<and> rp_pie (report_of demo_pandas ?L)
              = \<lparr> pie_names = [Name (str ''No data'')], pie_values = [1],
                  pie_title = str ''Overall distribution (1'' @ [8211] @ str ''5)'' \<rparr>"
    by (simp add: a z)
  then show ?thesis
    by (simp add: a)
qed

section \<open>The comments section\<close>



lemma is_comment_name_nonempty: "is_comment_name c \<Longrightarrow> c \<noteq> []"
  by (auto simp: is_comment_name_def lower_def str_def)

lemma load_comment_col:
  assumes "load P frame = Inr L"
  shows "comment_col L = None \<Longrightarrow> comment_cells L = []"
    and "comment_col L = Some c \<Longrightarrow> c \<noteq> []"
proof -
  note f = load_fields [OF assms]
  show "comment_cells L = []" if "comment_col L = None"
  proof -
    have "find (\<lambda>col. Some (fst col) = None) (assign (timestamp_col L) (to_datetime P) frame) = None"
      by (simp add: find_None_iff)
    then show ?thesis using f(5) that by simp
  qed
  show "c \<noteq> []" if "comment_col L = Some c"
  proof -
    have "find is_comment_name (map fst frame) = Some c" using f(3) that by simp
    then have "is_comment_name c" by (auto simp: find_Some_iff)
    then show ?thesis by (rule is_comment_name_nonempty)
  qed
qed


lemma comments_html_eq:
  assumes "load P frame = Inr L"
  shows "comments_html P L =
     (if comments P L = [] then []
      else section_open (length (comments P L)) @ join [10] (map comment_item (comments P L))
           @ section_close)"
proof (cases "comment_col L")
  case None
  then have "comment_cells L = []" by (rule load_comment_col(1) [OF assms])
  then show ?thesis using None by (simp add: comments_html_def comments_def)
next
  case (Some c)
  then have "c \<noteq> []" by (rule load_comment_col(2) [OF assms])
  then show ?thesis using Some by (simp add: comments_html_def)
qed



lemma join_Cons: "join sep (x # xs) = x @ (if xs = [] then [] else sep @ join sep xs)"
  by (cases xs) simp_all

lemma join_contains:
  "x \<in> set xs \<Longrightarrow> \<exists>pre post. join sep (map f xs) = pre @ f x @ post"
proof (induction xs)
  case Nil
  then show ?case by simp
next
  case (Cons y ys)
  show ?case
  proof (cases "x = y")
    case True
    have "join sep (map f (y # ys)) = [] @ f x @ (if ys = [] then [] else sep @ join sep (map f ys))"
      by (simp add: join_Cons True)
    then show ?thesis by blast
  next
    case False
    then have mem: "x \<in> set ys" using Cons.prems by simp
    then obtain pre post where "join sep (map f ys) = pre @ f x @ post"
      using Cons.IH by blast
    moreover have "ys \<noteq> []" using mem by auto
    ultimately have "join sep (map f (y # ys)) = (f y @ sep @ pre) @ f x @ post"
      by (simp add: join_Cons)
    then show ?thesis by blast
  qed
qed

text \<open>
  C10. Every displayed comment stands in the document as it is, between the opening
  \<open>div\<close> with a left quotation mark and a right quotation mark with the closing
  \<open>div\<close>: no character of it is escaped.
\<close>

theorem comment_verbatim:
  assumes "load P frame = Inr L" and "c \<in> set (comments P L)"
  shows \<open>\<exists>pre post. html before P L
           = pre @ str ''<div class='comment'>'' @ [8220] @ c @ [8221] @ str ''</div>'' @ post\<close>
proof -
  have ne: "comments P L \<noteq> []" using assms(2) by auto
  obtain pre post where "join [10] (map comment_item (comments P L)) = pre @ comment_item c @ post"
    using join_contains [OF assms(2)] by blast
  then have "html before P L
     = (before @ section_open (length (comments P L)) @ pre) @ comment_item c
       @ (post @ section_close @ html_tail)"
    by (simp add: html_def comments_html_eq [OF assms(1)] ne)
  then have "html before P L
     = (before @ section_open (length (comments P L)) @ pre)
       @ str ''<div class='comment'>'' @ [8220] @ c @ [8221] @ str ''</div>''
       @ (post @ section_close @ html_tail)"
    by (simp only: comment_item_def append_assoc)
  then show ?thesis by blast
qed

lemma comments_demo: "comments demo_pandas demo_loaded = [str ''<b>good</b>'']"
  by (simp add: comments_def demo_pandas_def demo_loaded_def strip_def isspace_def
      astype_str_def str_def)




theorem comment_verbatim_witness:
  \<open>load demo_pandas demo_frame = Inr demo_loaded
   \<and> str ''<b>good</b>'' \<in> set (comments demo_pandas demo_loaded)
   \<and> (\<exists>pre post. html [] demo_pandas demo_loaded
         = pre @ str ''<div class='comment'>'' @ [8220] @ str ''<b>good</b>'' @ [8221]
           @ str ''</div>'' @ post)\<close>
proof -
  have m: "str ''<b>good</b>'' \<in> set (comments demo_pandas demo_loaded)"
    by (simp add: comments_demo)
  from load_demo m comment_verbatim [OF load_demo m, of "[]"] show ?thesis
    by (intro conjI)
qed

section \<open>Double precision\<close>

lemma bit_length_demo: "bit_length 8 = 4" "bit_length 11 = 4" "bit_length 7 = 3" "bit_length 12 = 4"
  "bit_length 4 = 3" "bit_length 3 = 2"
  by (simp_all add: bit_length.simps)

lemma fl_at:
  assumes "of_nat n \<le> x" and "x < of_nat n + 1" and "0 < n" and "bit_length n = Suc e"
  shows "fl x = of_int (round_half_even (x * 2 ^ 52 / 2 ^ e)) * 2 ^ e / 2 ^ 52"
proof -
  have pos: "1 \<le> x" using assms(1,3)
    by (metis One_nat_def Suc_leI of_nat_1 of_nat_mono order_trans)
  then have a: "\<bar>x\<bar> = x" by simp
  have "\<lfloor>x\<rfloor> = int n"
    using assms(1,2) by (simp add: floor_eq_iff)
  then have u: "ulp x = 2 ^ e / 2 ^ 52"
    using pos by (simp add: ulp_def a assms(4))
  have "x \<noteq> 0" using pos by simp
  then show ?thesis by (simp add: fl_def u)
qed

lemma round_half_even_at:
  assumes "of_int f \<le> q" and "q < of_int f + 1"
  shows "round_half_even q
     = (if q - of_int f < 1 / 2 then f else if 1 / 2 < q - of_int f then f + 1
        else if even f then f else f + 1)"
proof -
  have "\<lfloor>q\<rfloor> = f" using assms by (simp add: floor_eq_iff)
  then show ?thesis by (simp add: round_half_even_def Let_def)
qed

lemma fl_sum_1: "fl (2308094809027379/562949953421312 + 4841369599423283/1125899906842624)
   = 1182194902184755/140737488355328"
  by (simp add: fl_at [of 8 _ 3] bit_length_demo round_half_even_at [of 4728779608739020])

lemma fl_sum_2: "fl (1182194902184755/140737488355328 + 8106479329266893/2251799813685248)
   = 6755399441055743/562949953421312"
  by (simp add: fl_at [of 11 _ 3] bit_length_demo round_half_even_at [of 6755399441055743])

lemma fl_quot_1: "fl (6755399441055743/1688849860263936) = 9007199254740991/2251799813685248"
  by (simp add: fl_at [of 3 _ 1] bit_length_demo round_half_even_at [of 9007199254740990])

lemma fl_sum_3: "fl (8106479329266893/2251799813685248 + 2308094809027379/562949953421312)
   = 2167357320672051/281474976710656"
  by (simp add: fl_at [of 7 _ 2] bit_length_demo round_half_even_at [of 8669429282688204])

lemma fl_sum_4: "fl (2167357320672051/281474976710656 + 4841369599423283/1125899906842624) = 12"
  by (simp add: fl_at [of 11 _ 3] bit_length_demo round_half_even_at [of 6755399441055743])

lemma fl_4: "fl 4 = 4"
  by (simp add: fl_at [of 4 _ 2] bit_length_demo round_half_even_at [of 4503599627370496])

lemma fl_first_1: "fl (2308094809027379/562949953421312) = 2308094809027379/562949953421312"
  by (simp add: fl_at [of 4 _ 2] bit_length_demo round_half_even_at [of 4616189618054758])

lemma fl_first_2: "fl (8106479329266893/2251799813685248) = 8106479329266893/2251799813685248"
  by (simp add: fl_at [of 3 _ 1] bit_length_demo round_half_even_at [of 8106479329266893])

lemma fl_mean_decimals: "fl_mean [2308094809027379/562949953421312, 4841369599423283/1125899906842624,
    8106479329266893/2251799813685248] = 9007199254740991/2251799813685248"
  unfolding fl_mean_def foldl.simps add_0 fl_first_1 fl_sum_1 fl_sum_2
  by (simp add: fl_quot_1)

lemma fl_mean_decimals_reordered: "fl_mean [8106479329266893/2251799813685248, 2308094809027379/562949953421312,
    4841369599423283/1125899906842624] = 4"
  unfolding fl_mean_def foldl.simps add_0 fl_first_2 fl_sum_3 fl_sum_4
  by (simp add: fl_4)

lemma bit_length_bounds:
  "0 < n \<Longrightarrow> 2 ^ (bit_length n - 1) \<le> n \<and> n < 2 ^ bit_length n"
proof (induction n rule: bit_length.induct)
  case (1 n)
  show ?case
  proof (cases "n div 2 = 0")
    case True
    then have "n = 1" using "1.prems" by (simp add: div_eq_0_iff)
    then show ?thesis by (simp add: bit_length.simps)
  next
    case False
    then have h: "0 < n div 2" by simp
    have n0: "n \<noteq> 0" using "1.prems" by simp
    from "1.IH" [OF n0 h]
    have lo: "2 ^ (bit_length (n div 2) - 1) \<le> n div 2"
      and hi: "n div 2 < 2 ^ bit_length (n div 2)" by simp_all
    have b: "bit_length n = Suc (bit_length (n div 2))"
      using n0 by (subst bit_length.simps) simp
    have p: "0 < bit_length (n div 2)"
      using h by (subst bit_length.simps) simp
    then have "(2::nat) ^ bit_length (n div 2) = 2 * 2 ^ (bit_length (n div 2) - 1)"
      by (cases "bit_length (n div 2)") simp_all
    then have "(2::nat) ^ (bit_length n - 1) \<le> 2 * (n div 2)"
      using lo by (simp add: b)
    then have 1: "(2::nat) ^ (bit_length n - 1) \<le> n" by linarith
    have "n div 2 + 1 \<le> 2 ^ bit_length (n div 2)" using hi by simp
    then have "2 * (n div 2) + 2 \<le> 2 ^ bit_length n" by (simp add: b)
    then have 2: "n < 2 ^ bit_length n" by linarith
    from 1 2 show ?thesis by simp
  qed
qed

lemma round_half_even_of_int: "round_half_even (of_int k) = k"
  by (simp add: round_half_even_def Let_def)

lemma fl_int:
  assumes "\<bar>z\<bar> \<le> 2 ^ 53"
  shows "fl (of_int z) = of_int z"
proof (cases "z = 0")
  case True
  then show ?thesis by (simp add: fl_def)
next
  case False
  define n where "n = nat \<bar>z\<bar>"
  define e where "e = bit_length n - 1"
  have n0: "0 < n" using False by (simp add: n_def)
  have b: "2 ^ e \<le> n" using bit_length_bounds [OF n0] by (simp add: e_def)
  have nz: "int n = \<bar>z\<bar>" by (simp add: n_def)
  have n53: "n \<le> 2 ^ 53" using assms by (simp add: n_def nat_le_iff)
  have "1 \<le> \<bar>z\<bar>" using False by simp
  then have "(1::rat) \<le> of_int \<bar>z\<bar>" by (simp only: of_int_1_le_iff)
  then have abs1: "1 \<le> \<bar>of_int z :: rat\<bar>" by simp
  have fz: "\<lfloor>\<bar>of_int z :: rat\<bar>\<rfloor> = \<bar>z\<bar>" by (simp flip: of_int_abs)
  have u: "ulp (of_int z) = 2 ^ e / 2 ^ 52"
    using abs1 by (simp add: ulp_def fz e_def n_def)
  have dv: "(2::int) ^ e dvd z * 2 ^ 52"
  proof (cases "e \<le> 52")
    case True
    then have "(2::int) ^ e dvd 2 ^ 52" by (rule le_imp_power_dvd)
    then show ?thesis by (rule dvd_mult)
  next
    case False
    have le: "(2::nat) ^ e \<le> 2 ^ 53" using b n53 by (rule order_trans)
    have "e \<le> 53" by (rule power_le_imp_le_exp [OF _ le]) simp
    then have e53: "e = 53" using False by simp
    then have "n = 2 ^ 53" using b n53 by simp
    then have "\<bar>z\<bar> = 2 ^ 53" using nz by simp
    then have "z = 2 ^ 53 \<or> z = - (2 ^ 53)" by linarith
    then have "(2::int) ^ e dvd z" by (auto simp: e53)
    then show ?thesis by (rule dvd_mult2)
  qed
  then obtain k where k: "z * 2 ^ 52 = 2 ^ e * k" by (auto elim: dvdE)
  have "(of_int (z * 2 ^ 52) :: rat) = of_int (2 ^ e * k)" by (simp only: k)
  then have m: "(of_int z :: rat) * 2 ^ 52 = 2 ^ e * of_int k" by simp
  then have q: "of_int z / (2 ^ e / 2 ^ 52) = (of_int k :: rat)"
    by (simp add: field_simps)
  have "(of_int z :: rat) \<noteq> 0" using False by simp
  then have "fl (of_int z)
      = of_int (round_half_even (of_int z / ulp (of_int z))) * ulp (of_int z)"
    by (simp only: fl_def if_False)
  also have "\<dots> = of_int (round_half_even (of_int k)) * (2 ^ e / 2 ^ 52)"
    by (simp only: u q)
  also have "\<dots> = of_int k * (2 ^ e / 2 ^ 52)" by (simp only: round_half_even_of_int)
  also have "\<dots> = of_int z" using m by (simp add: field_simps)
  finally show ?thesis .
qed

lemma fl_whole:
  assumes "x \<in> \<int>" and "\<bar>x\<bar> \<le> 2 ^ 53"
  shows "fl x = x"
proof -
  from assms(1) obtain z where z: "x = of_int z" by (rule Ints_cases)
  have "(of_int \<bar>z\<bar> :: rat) \<le> of_int (2 ^ 53)" using assms(2) by (simp add: z)
  then have "\<bar>z\<bar> \<le> 2 ^ 53" by (simp only: of_int_le_iff)
  then show ?thesis unfolding z by (rule fl_int)
qed

lemma foldl_exact:
  assumes "\<forall>x\<in>set xs. x \<in> \<int>" and "a \<in> \<int>" and "\<bar>a\<bar> + sum_list (map abs xs) \<le> 2 ^ 53"
  shows "foldl (\<lambda>a x. fl (a + x)) a xs = a + sum_list xs"
  using assms
proof (induction xs arbitrary: a)
  case Nil
  then show ?case by simp
next
  case (Cons x xs)
  have xi: "x \<in> \<int>" using Cons.prems(1) by simp
  have ai: "a + x \<in> \<int>" using Cons.prems(2) xi by (rule Ints_add)
  have nn: "0 \<le> sum_list (map abs xs)" by (rule sum_list_nonneg) auto
  have bd: "\<bar>a + x\<bar> + sum_list (map abs xs) \<le> 2 ^ 53"
    using Cons.prems(3) by simp
  then have "\<bar>a + x\<bar> \<le> 2 ^ 53" using nn by linarith
  with ai have f: "fl (a + x) = a + x" by (rule fl_whole)
  have "foldl (\<lambda>a x. fl (a + x)) (a + x) xs = a + x + sum_list xs"
    using Cons.prems(1) ai bd by (intro Cons.IH) simp_all
  then show ?case by (simp add: f)
qed

lemma fl_mean_whole:
  assumes "whole xs"
  shows "fl_mean xs = fl (sum_list xs / of_nat (length xs))"
proof -
  have "foldl (\<lambda>a x. fl (a + x)) 0 xs = 0 + sum_list xs"
    using assms by (intro foldl_exact) (simp_all add: whole_def)
  then show ?thesis by (simp add: fl_mean_def)
qed

lemma double_fields:
  "numeric_of double_pandas = numeric_of demo_pandas"
  "datetime_of double_pandas = datetime_of demo_pandas"
  "mean_float double_pandas = fl_mean"
  "float_quotient double_pandas = (\<lambda>a b. fl (a / b))"
  "argsort double_pandas = argsort demo_pandas"
  by (simp_all add: double_pandas_def)

lemma exact_double: "exact_on_whole double_pandas"
  by (simp add: exact_on_whole_def double_fields fl_mean_whole)

lemma argsort_demo: "argsort_ok demo_pandas"
  by (simp add: argsort_ok_def demo_pandas_def)

lemma argsort_double: "argsort_ok double_pandas"
  using argsort_demo by (simp add: argsort_ok_def double_fields)

lemma load_double: "load double_pandas frame = load demo_pandas frame"
proof (cases "frame = []")
  case True
  then show ?thesis by (simp add: load_empty)
next
  case False
  have c: "spec_coerce double_pandas = spec_coerce demo_pandas"
    by (rule ext) (simp add: spec_coerce_def double_fields split: cell.split)
  have d: "to_datetime double_pandas = to_datetime demo_pandas"
    by (rule ext) (simp add: to_datetime_def double_fields)
  show ?thesis by (simp only: load_eq [OF False] c d)
qed

lemma fl_demo: "fl 1 = 1" "fl 3 = 3" "fl 4 = 4" "fl 5 = 5" "fl (7 / 2) = 7 / 2"
proof -
  have w: "\<And>z. \<bar>z\<bar> \<le> 5 \<Longrightarrow> fl (of_int z) = of_int z"
    by (rule fl_int) simp
  show "fl 1 = 1" using w [of 1] by simp
  show "fl 3 = 3" using w [of 3] by simp
  show "fl 4 = 4" using w [of 4] by simp
  show "fl 5 = 5" using w [of 5] by simp
  show "fl (7 / 2) = 7 / 2"
    by (simp add: fl_at [of 3 _ 1] bit_length_demo round_half_even_at [of 7881299347898368])
qed

section \<open>The overall mean\<close>

lemma sum_list_mset_cong:
  fixes g :: "'a \<Rightarrow> 'b::comm_monoid_add"
  assumes "mset xs = mset ys"
  shows "sum_list (map g xs) = sum_list (map g ys)"
proof -
  have "sum_list (map g xs) = sum_mset (image_mset g (mset xs))"
    by (simp only: sum_mset_sum_list [symmetric] mset_map)
  also have "\<dots> = sum_mset (image_mset g (mset ys))"
    by (simp only: assms)
  also have "\<dots> = sum_list (map g ys)"
    by (simp only: sum_mset_sum_list [symmetric] mset_map)
  finally show ?thesis .
qed

lemma whole_mset:
  assumes "mset xs = mset ys"
  shows "whole xs = whole ys"
proof -
  have s: "set xs = set ys" using assms by (rule mset_eq_setD)
  have a: "sum_list (map abs xs) = sum_list (map abs ys)"
    using assms by (rule sum_list_mset_cong)
  show ?thesis by (simp only: whole_def s a)
qed

lemma mean_of_whole:
  assumes e: "exact_on_whole P" and w: "whole ys" and ne: "ys \<noteq> []" and m: "mset xs = mset ys"
  shows "mean_of P xs = Some (float_quotient P (sum_list ys) (of_nat (length ys)))"
proof -
  have len: "length xs = length ys" using m by (rule mset_eq_length)
  have xne: "xs \<noteq> []" using len ne by auto
  have wx: "whole xs" using w by (simp only: whole_mset [OF m])
  have q: "mean_float P xs = float_quotient P (sum_list xs) (of_nat (length xs))"
    by (rule e [unfolded exact_on_whole_def, rule_format]) (rule conjI [OF xne wx])
  have s: "sum_list xs = sum_list ys"
    using sum_list_mset_cong [OF m, of "\<lambda>x. x"] by simp
  show ?thesis using xne by (simp add: mean_of_def q s len)
qed

lemma overall_mean_stacked:
  "overall_mean P L = mean_of P (stacked L)"
  by (simp add: overall_mean_def mean_of_def)

lemma mset_present: "mset (present vs) = image_mset the (filter_mset (\<lambda>v. v \<noteq> None) (mset vs))"
  unfolding present_def
  by (induction vs) (simp_all add: List.map_filter_simps split: option.split del: not_None_eq)

lemma mset_present_cong: "mset vs = mset ws \<Longrightarrow> mset (present vs) = mset (present ws)"
  by (simp add: mset_present)

lemma mset_take_all:
  assumes "mset p = mset [0..<length vs]"
  shows "mset (map (\<lambda>i. vs ! i) p) = mset vs"
proof -
  have "mset (map (\<lambda>i. vs ! i) p) = image_mset (\<lambda>i. vs ! i) (mset p)" by simp
  also have "\<dots> = mset (map (\<lambda>i. vs ! i) [0..<length vs])"
    by (simp only: assms mset_map)
  also have "\<dots> = mset vs" by (simp add: map_nth)
  finally show ?thesis .
qed

lemma mset_pooled_sum:
  "mset (spec_pooled L) = (\<Sum>col\<leftarrow>questions L. mset (present (snd col)))"
  by (simp add: spec_pooled_def mset_concat comp_def)

lemma take_rows_names: "map fst (spec_take_rows p frame) = map fst frame"
  by (simp add: spec_take_rows_def comp_def)

lemma take_rows_hd: "frame \<noteq> [] \<Longrightarrow> fst (hd (spec_take_rows p frame)) = fst (hd frame)"
  by (cases frame) (simp_all add: spec_take_rows_def)

lemma take_rows_filter:
  "filter (\<lambda>col. Q (fst col)) (spec_take_rows p frame)
   = spec_take_rows p (filter (\<lambda>col. Q (fst col)) frame)"
  by (induction frame) (simp_all add: spec_take_rows_def)

lemma take_rows_rectangular:
  assumes "frame \<noteq> []"
  shows "rectangular (len (spec_take_rows p frame)) (spec_take_rows p frame)"
  using assms by (cases frame) (simp_all add: rectangular_def len_def spec_take_rows_def list_all_iff)

lemma rows_reordered:
  assumes l: "load P frame = Inr L" and r: "rectangular (len frame) frame"
    and p: "mset p = mset [0..<len frame]"
    and l': "load P (spec_take_rows p frame) = Inr L'"
  shows "mset (spec_pooled L') = mset (spec_pooled L)"
    and "rectangular (nrows L') (questions L')"
proof -
  have ne: "frame \<noteq> []" using l by (auto simp: load_empty)
  have ts: "timestamp_col L' = timestamp_col L"
    by (simp only: load_fields(2) [OF l] load_fields(2) [OF l'] take_rows_names
        take_rows_hd [OF ne])
  have cc: "comment_col L' = comment_col L"
    by (simp only: load_fields(3) [OF l] load_fields(3) [OF l'] take_rows_names)
  let ?Q = "\<lambda>col :: pystr \<times> cell list. fst col \<noteq> timestamp_col L \<and> Some (fst col) \<noteq> comment_col L"
  have q: "questions L = map (\<lambda>col. (fst col, map (spec_coerce P) (snd col))) (filter ?Q frame)"
    by (rule load_fields(4) [OF l])
  have "questions L' = map (\<lambda>col. (fst col, map (spec_coerce P) (snd col)))
                         (filter ?Q (spec_take_rows p frame))"
    using load_fields(4) [OF l'] by (simp only: ts cc)
  also have "filter ?Q (spec_take_rows p frame) = spec_take_rows p (filter ?Q frame)"
    by (rule take_rows_filter [of "\<lambda>c. c \<noteq> timestamp_col L \<and> Some c \<noteq> comment_col L"])
  finally have q': "questions L' = map (\<lambda>col. (fst col, map (spec_coerce P) (snd col)))
                         (spec_take_rows p (filter ?Q frame))" .
  have "(\<Sum>col\<leftarrow>questions L'. mset (present (snd col)))
        = (\<Sum>col\<leftarrow>filter ?Q frame. mset (present (map (spec_coerce P) (map (\<lambda>i. snd col ! i) p))))"
    by (simp add: q' spec_take_rows_def comp_def)
  also have "\<dots> = (\<Sum>col\<leftarrow>filter ?Q frame. mset (present (map (spec_coerce P) (snd col))))"
  proof (rule arg_cong [where f = sum_list], rule map_cong [OF refl])
    fix col assume "col \<in> set (filter ?Q frame)"
    then have "col \<in> set frame" by simp
    then have len: "length (snd col) = len frame"
      using r by (simp add: rectangular_def list_all_iff)
    have "mset p = mset [0..<length (snd col)]"
      by (simp only: len p)
    then have "mset (map (\<lambda>i. snd col ! i) p) = mset (snd col)"
      by (rule mset_take_all)
    then have "image_mset (spec_coerce P) (mset (map (\<lambda>i. snd col ! i) p))
               = image_mset (spec_coerce P) (mset (snd col))"
      by (rule arg_cong)
    then have "mset (map (spec_coerce P) (map (\<lambda>i. snd col ! i) p))
               = mset (map (spec_coerce P) (snd col))"
      by (simp only: mset_map)
    then show "mset (present (map (spec_coerce P) (map (\<lambda>i. snd col ! i) p)))
               = mset (present (map (spec_coerce P) (snd col)))"
      by (rule mset_present_cong)
  qed
  also have "\<dots> = (\<Sum>col\<leftarrow>questions L. mset (present (snd col)))"
    by (simp add: q comp_def)
  finally show "mset (spec_pooled L') = mset (spec_pooled L)"
    by (simp only: mset_pooled_sum)
  show "rectangular (nrows L') (questions L')"
    using l' take_rows_rectangular [OF ne] by (rule load_rectangular)
qed

lemma columns_reordered:
  assumes l: "load P frame = Inr L" and r: "rectangular (len frame) frame"
    and m: "mset frame' = mset frame"
    and l': "load P frame' = Inr L'"
    and ts: "timestamp_col L' = timestamp_col L"
    and cc: "comment_col L' = comment_col L"
  shows "mset (spec_pooled L') = mset (spec_pooled L)"
    and "rectangular (nrows L') (questions L')"
proof -
  have ne': "frame' \<noteq> []" using l' by (auto simp: load_empty)
  have s: "set frame' = set frame" using m by (rule mset_eq_setD)
  let ?Q = "\<lambda>col :: pystr \<times> cell list. fst col \<noteq> timestamp_col L \<and> Some (fst col) \<noteq> comment_col L"
  let ?g = "\<lambda>col :: pystr \<times> cell list. (fst col, map (spec_coerce P) (snd col))"
  have q: "questions L = map ?g (filter ?Q frame)"
    by (rule load_fields(4) [OF l])
  have q': "questions L' = map ?g (filter ?Q frame')"
    using load_fields(4) [OF l'] by (simp only: ts cc)
  have "mset (filter ?Q frame') = mset (filter ?Q frame)"
    by (simp only: mset_filter m)
  then have "image_mset ?g (mset (filter ?Q frame')) = image_mset ?g (mset (filter ?Q frame))"
    by (rule arg_cong)
  then have mq: "mset (questions L') = mset (questions L)"
    by (simp only: q q' mset_map)
  show "mset (spec_pooled L') = mset (spec_pooled L)"
    unfolding mset_pooled_sum using mq by (rule sum_list_mset_cong)
  have "hd frame' \<in> set frame" using ne' s by (metis hd_in_set)
  then have "length (snd (hd frame')) = len frame"
    using r by (simp add: rectangular_def list_all_iff)
  then have "len frame' = len frame"
    using ne' by (cases frame') (simp_all add: len_def)
  then have "rectangular (len frame') frame'"
    using r by (simp add: rectangular_def list_all_iff s)
  with l' show "rectangular (nrows L') (questions L')"
    by (rule load_rectangular)
qed

text \<open>
  C6 (as amended). For every input table with at least one non-missing question value,
  the overall mean is the float mean of a series that holds exactly the non-missing
  question values pooled over the question columns. When these values are whole numbers
  whose absolute values add up to at most \<open>2\<^sup>5\<^sup>3\<close>, the overall mean is the
  float quotient of their sum by their number, it is the same for the rows of the table
  in any other order, and it is the same for the columns of the table in any other order
  in which the timestamp column and the comment column are the same.
\<close>

theorem overall_mean_pooled:
  assumes "load P frame = Inr L" and "rectangular (len frame) frame"
    and "spec_pooled L \<noteq> []"
  shows "mset (stacked L) = mset (spec_pooled L)
     \<and> overall_mean P L = Some (mean_float P (stacked L))
     \<and> (exact_on_whole P \<and> whole (spec_pooled L) \<longrightarrow>
          overall_mean P L
            = Some (float_quotient P (sum_list (spec_pooled L)) (of_nat (length (spec_pooled L))))
        \<and> (\<forall>p L'. mset p = mset [0..<len frame] \<and> load P (spec_take_rows p frame) = Inr L'
              \<longrightarrow> overall_mean P L' = overall_mean P L)
        \<and> (\<forall>frame' L'. mset frame' = mset frame \<and> load P frame' = Inr L'
                \<and> timestamp_col L' = timestamp_col L \<and> comment_col L' = comment_col L
              \<longrightarrow> overall_mean P L' = overall_mean P L))"
proof -
  have r: "rectangular (nrows L) (questions L)"
    using assms(1,2) by (rule load_rectangular)
  have 1: "mset (stacked L) = mset (spec_pooled L)"
    using r by (rule mset_stacked)
  have "length (stacked L) = length (spec_pooled L)"
    using 1 by (rule mset_eq_length)
  then have sne: "stacked L \<noteq> []" using assms(3) by auto
  have 2: "overall_mean P L = Some (mean_float P (stacked L))"
    using sne by (simp add: overall_mean_def mean_of_def)
  have 3: "exact_on_whole P \<and> whole (spec_pooled L) \<longrightarrow>
          overall_mean P L
            = Some (float_quotient P (sum_list (spec_pooled L)) (of_nat (length (spec_pooled L))))
        \<and> (\<forall>p L'. mset p = mset [0..<len frame] \<and> load P (spec_take_rows p frame) = Inr L'
              \<longrightarrow> overall_mean P L' = overall_mean P L)
        \<and> (\<forall>frame' L'. mset frame' = mset frame \<and> load P frame' = Inr L'
                \<and> timestamp_col L' = timestamp_col L \<and> comment_col L' = comment_col L
              \<longrightarrow> overall_mean P L' = overall_mean P L)"
  proof
    assume "exact_on_whole P \<and> whole (spec_pooled L)"
    then have e: "exact_on_whole P" and w: "whole (spec_pooled L)" by simp_all
    note mw = mean_of_whole [OF e w assms(3)]
    have a: "overall_mean P L
            = Some (float_quotient P (sum_list (spec_pooled L)) (of_nat (length (spec_pooled L))))"
      unfolding overall_mean_stacked using 1 by (rule mw)
    have b: "\<forall>p L'. mset p = mset [0..<len frame] \<and> load P (spec_take_rows p frame) = Inr L'
              \<longrightarrow> overall_mean P L' = overall_mean P L"
    proof (intro allI impI, elim conjE)
      fix p L'
      assume p: "mset p = mset [0..<len frame]" and l': "load P (spec_take_rows p frame) = Inr L'"
      have "mset (stacked L') = mset (spec_pooled L')"
        using rows_reordered(2) [OF assms(1,2) p l'] by (rule mset_stacked)
      then have "mset (stacked L') = mset (spec_pooled L)"
        by (simp only: rows_reordered(1) [OF assms(1,2) p l'])
      then have "mean_of P (stacked L')
            = Some (float_quotient P (sum_list (spec_pooled L)) (of_nat (length (spec_pooled L))))"
        by (rule mw)
      with a show "overall_mean P L' = overall_mean P L"
        by (simp only: overall_mean_stacked)
    qed
    have c: "\<forall>frame' L'. mset frame' = mset frame \<and> load P frame' = Inr L'
                \<and> timestamp_col L' = timestamp_col L \<and> comment_col L' = comment_col L
              \<longrightarrow> overall_mean P L' = overall_mean P L"
    proof (intro allI impI, elim conjE)
      fix frame' L'
      assume m: "mset frame' = mset frame" and l': "load P frame' = Inr L'"
        and ts: "timestamp_col L' = timestamp_col L" and cc: "comment_col L' = comment_col L"
      have "mset (stacked L') = mset (spec_pooled L')"
        using columns_reordered(2) [OF assms(1,2) m l' ts cc] by (rule mset_stacked)
      then have "mset (stacked L') = mset (spec_pooled L)"
        by (simp only: columns_reordered(1) [OF assms(1,2) m l' ts cc])
      then have "mean_of P (stacked L')
            = Some (float_quotient P (sum_list (spec_pooled L)) (of_nat (length (spec_pooled L))))"
        by (rule mw)
      with a show "overall_mean P L' = overall_mean P L"
        by (simp only: overall_mean_stacked)
    qed
    from a b c show "overall_mean P L
            = Some (float_quotient P (sum_list (spec_pooled L)) (of_nat (length (spec_pooled L))))
        \<and> (\<forall>p L'. mset p = mset [0..<len frame] \<and> load P (spec_take_rows p frame) = Inr L'
              \<longrightarrow> overall_mean P L' = overall_mean P L)
        \<and> (\<forall>frame' L'. mset frame' = mset frame \<and> load P frame' = Inr L'
                \<and> timestamp_col L' = timestamp_col L \<and> comment_col L' = comment_col L
              \<longrightarrow> overall_mean P L' = overall_mean P L)"
      by (intro conjI)
  qed
  from 1 2 3 show ?thesis by (intro conjI)
qed

lemma load_total:
  assumes "frame \<noteq> []"
  shows "\<exists>L. load P frame = Inr L"
  unfolding load_eq [OF assms] by (rule exI, rule refl)

lemma load_survey_double: "load double_pandas demo_survey = Inr demo_survey_loaded"
  by (simp only: load_double load_survey)

lemma rectangular_survey: "rectangular (len demo_survey) demo_survey"
  by (simp add: demo_survey_def rectangular_def len_def)

lemma pooled_survey: "spec_pooled demo_survey_loaded = [4, 2, 3, 5, 1]"
  by (simp add: spec_pooled_def demo_survey_loaded_def present_def List.map_filter_simps)

lemma stacked_survey: "stacked demo_survey_loaded = [4, 5, 2, 3, 1]"
  by (simp add: stacked_def demo_survey_loaded_def stack_row_def cell_at_def
      List.map_filter_simps upt_conv_Cons)

lemma whole_survey: "whole [4, 2, 3, 5, 1]"
  by (simp add: whole_def)

lemma perm_survey: "mset [2, 0, 3, 1 :: nat] = mset [0..<len demo_survey]"
proof -
  have "[0..<len demo_survey] = [0, 1, 2, 3 :: nat]"
    by (simp add: demo_survey_def len_def upt_conv_Cons)
  then show ?thesis by (simp only: mset.simps) (simp add: add_mset_commute)
qed

lemma columns_survey:
  "mset [demo_survey ! 2, demo_survey ! 3, demo_survey ! 1, demo_survey ! 0] = mset demo_survey"
  by (simp add: demo_survey_def add_mset_commute)

lemma roles_survey:
  "find is_timestamp_name
     (map fst [demo_survey ! 2, demo_survey ! 3, demo_survey ! 1, demo_survey ! 0])
   = Some (str ''TimeStamp (UTC)'')"
  "find is_comment_name
     (map fst [demo_survey ! 2, demo_survey ! 3, demo_survey ! 1, demo_survey ! 0])
   = Some (str ''Your COMMENTS'')"
  by (simp_all add: demo_survey_def is_timestamp_name_def is_comment_name_def lower_def
      lower_char_def startswith_def str_def)

theorem overall_mean_pooled_witness:
  "load double_pandas demo_survey = Inr demo_survey_loaded
   \<and> rectangular (len demo_survey) demo_survey
   \<and> spec_pooled demo_survey_loaded = [4, 2, 3, 5, 1]
   \<and> exact_on_whole double_pandas \<and> whole [4, 2, 3, 5, 1]
   \<and> stacked demo_survey_loaded = [4, 5, 2, 3, 1]
   \<and> overall_mean double_pandas demo_survey_loaded = Some 3
   \<and> map_sum id (overall_mean double_pandas)
         (load double_pandas (spec_take_rows [2, 0, 3, 1] demo_survey)) = Inr (Some 3)
   \<and> map_sum id (overall_mean double_pandas)
         (load double_pandas [demo_survey ! 2, demo_survey ! 3, demo_survey ! 1, demo_survey ! 0])
       = Inr (Some 3)"
proof -
  have ne: "spec_pooled demo_survey_loaded \<noteq> []" by (simp add: pooled_survey)
  have w: "exact_on_whole double_pandas \<and> whole (spec_pooled demo_survey_loaded)"
    using exact_double whole_survey by (simp only: pooled_survey)
  note t = overall_mean_pooled [OF load_survey_double rectangular_survey ne]
  note u = t [THEN conjunct2, THEN conjunct2, THEN mp, OF w]
  have "overall_mean double_pandas demo_survey_loaded
        = Some (float_quotient double_pandas (sum_list (spec_pooled demo_survey_loaded))
                  (of_nat (length (spec_pooled demo_survey_loaded))))"
    by (rule u [THEN conjunct1])
  then have 1: "overall_mean double_pandas demo_survey_loaded = Some 3"
    by (simp add: pooled_survey double_fields fl_demo)
  have "spec_take_rows [2, 0, 3, 1] demo_survey \<noteq> []"
    by (simp add: spec_take_rows_def demo_survey_def)
  then obtain L1 where l1: "load double_pandas (spec_take_rows [2, 0, 3, 1] demo_survey) = Inr L1"
    using load_total by blast
  have "overall_mean double_pandas L1 = overall_mean double_pandas demo_survey_loaded"
    by (rule u [THEN conjunct2, THEN conjunct1, rule_format]) (rule conjI [OF perm_survey l1])
  then have 2: "map_sum id (overall_mean double_pandas)
         (load double_pandas (spec_take_rows [2, 0, 3, 1] demo_survey)) = Inr (Some 3)"
    unfolding l1 by (simp add: 1)
  let ?f = "[demo_survey ! 2, demo_survey ! 3, demo_survey ! 1, demo_survey ! 0]"
  have "?f \<noteq> []" by simp
  then obtain L2 where l2: "load double_pandas ?f = Inr L2"
    using load_total by blast
  have ts: "timestamp_col L2 = timestamp_col demo_survey_loaded"
    by (simp only: load_fields(2) [OF l2] roles_survey) (simp add: demo_survey_loaded_def)
  have cc: "comment_col L2 = comment_col demo_survey_loaded"
    by (simp only: load_fields(3) [OF l2] roles_survey) (simp add: demo_survey_loaded_def)
  have "overall_mean double_pandas L2 = overall_mean double_pandas demo_survey_loaded"
    by (rule u [THEN conjunct2, THEN conjunct2, rule_format])
      (intro conjI, rule columns_survey, rule l2, rule ts, rule cc)
  then have 3: "map_sum id (overall_mean double_pandas) (load double_pandas ?f) = Inr (Some 3)"
    unfolding l2 by (simp add: 1)
  from load_survey_double rectangular_survey pooled_survey exact_double whole_survey stacked_survey 1 2 3
  show ?thesis by (intro conjI)
qed

text \<open>
  A table with the columns \<open>Timestamp\<close>, \<open>Q1\<close>, \<open>Optional score\<close>,
  \<open>Comments\<close>: the comment column is \<open>Optional score\<close>, the questions are
  \<open>Q1\<close> and \<open>Comments\<close>, and the overall mean is 3. With the last two
  columns in the other order the comment column is \<open>Comments\<close>, the questions are
  \<open>Q1\<close> and \<open>Optional score\<close>, and the overall mean is 4. A table with one
  question answered 4.1, 4.3 and 3.6 has the overall mean 3.9999999999999996 in double
  precision, and with the last row first, 3.6, 4.1 and 4.3, the overall mean 4.
\<close>

lemma fl_mean_columns: "fl_mean [2, 4] = 3" "fl_mean [2, 5, 4, 5] = 4"
proof -
  have "whole [2, 4]" "whole [2, 5, 4, 5]" by (simp_all add: whole_def)
  then show "fl_mean [2, 4] = 3" "fl_mean [2, 5, 4, 5] = 4"
    by (simp_all add: fl_mean_whole fl_demo)
qed

lemma overall_mean_double:
  fixes r :: "error + loaded"
  assumes "map_sum id stacked r = Inr xs" and "xs \<noteq> []" and "fl_mean xs = y"
  shows "map_sum id (overall_mean double_pandas) r = Inr (Some y)"
  using assms by (cases r) (auto simp: overall_mean_def mean_of_def double_fields)

theorem overall_mean_pooled_counterexample:
  "map_sum id (overall_mean double_pandas)
     (load double_pandas
        [(str ''Timestamp'', [Txt (str ''2025-01-01''), Txt (str ''2025-01-01'')]),
         (str ''Q1'', [Num 2, Num 4]),
         (str ''Optional score'', [Num 5, Num 5]),
         (str ''Comments'', [Txt (str ''ok''), Txt (str ''ok'')])]) = Inr (Some 3)
   \<and> map_sum id (overall_mean double_pandas)
     (load double_pandas
        [(str ''Timestamp'', [Txt (str ''2025-01-01''), Txt (str ''2025-01-01'')]),
         (str ''Q1'', [Num 2, Num 4]),
         (str ''Comments'', [Txt (str ''ok''), Txt (str ''ok'')]),
         (str ''Optional score'', [Num 5, Num 5])]) = Inr (Some 4)
   \<and> map_sum id (overall_mean double_pandas) (load double_pandas demo_decimals)
       = Inr (Some (9007199254740991 / 2251799813685248))
   \<and> map_sum id (overall_mean double_pandas)
         (load double_pandas (spec_take_rows [2, 0, 1] demo_decimals)) = Inr (Some 4)"
proof -
  note defs = load_double load_eq stacked_def stack_row_def cell_at_def
      List.map_filter_simps upt_conv_Cons demo_pandas_def len_def
      is_timestamp_name_def is_comment_name_def lower_def lower_char_def startswith_def
      spec_coerce_def assign_def to_datetime_def str_def
  have 1: "map_sum id stacked
     (load double_pandas
        [(str ''Timestamp'', [Txt (str ''2025-01-01''), Txt (str ''2025-01-01'')]),
         (str ''Q1'', [Num 2, Num 4]),
         (str ''Optional score'', [Num 5, Num 5]),
         (str ''Comments'', [Txt (str ''ok''), Txt (str ''ok'')])]) = Inr [2, 4]"
    by (simp add: defs)
  have 2: "map_sum id stacked
     (load double_pandas
        [(str ''Timestamp'', [Txt (str ''2025-01-01''), Txt (str ''2025-01-01'')]),
         (str ''Q1'', [Num 2, Num 4]),
         (str ''Comments'', [Txt (str ''ok''), Txt (str ''ok'')]),
         (str ''Optional score'', [Num 5, Num 5])]) = Inr [2, 5, 4, 5]"
    by (simp add: defs)
  have 3: "map_sum id stacked (load double_pandas demo_decimals)
       = Inr [2308094809027379 / 562949953421312, 4841369599423283 / 1125899906842624,
              8106479329266893 / 2251799813685248]"
    by (simp add: defs demo_decimals_def)
  have 4: "map_sum id stacked (load double_pandas (spec_take_rows [2, 0, 1] demo_decimals))
       = Inr [8106479329266893 / 2251799813685248, 2308094809027379 / 562949953421312,
              4841369599423283 / 1125899906842624]"
    by (simp add: defs demo_decimals_def spec_take_rows_def)
  note m = overall_mean_double
  from m [OF 1 _ fl_mean_columns(1)] m [OF 2 _ fl_mean_columns(2)]
    m [OF 3 _ fl_mean_decimals] m [OF 4 _ fl_mean_decimals_reordered]
  show ?thesis by simp
qed

section \<open>Best and worst question\<close>

lemma sorted_key_last:
  fixes f :: "'a \<Rightarrow> rat"
  shows "sorted (map f ys) \<Longrightarrow> y \<in> set ys \<Longrightarrow> f y \<le> f (last ys)"
  by (induction ys) (auto split: if_splits)

lemma sorted_key_hd:
  fixes f :: "'a \<Rightarrow> rat"
  shows "sorted (map f ys) \<Longrightarrow> y \<in> set ys \<Longrightarrow> f (hd ys) \<le> f y"
  by (cases ys) auto

lemma distinct_hd_last:
  assumes "distinct ys" and "2 \<le> length ys"
  shows "hd ys \<noteq> last ys"
proof (cases ys)
  case Nil
  then show ?thesis using assms(2) by simp
next
  case (Cons y rest)
  then have "rest \<noteq> []" using assms(2) by auto
  then have "last ys \<in> set rest" using Cons by simp
  then show ?thesis using assms(1) Cons by auto
qed

text \<open>
  With every key a number, \<open>nargsort\<close> gives the positions in an order whose
  reverse sorts the keys.
\<close>

lemma nargsort_desc_defined:
  assumes ok: "argsort_ok P" and d: "\<forall>i<length items. items ! i \<noteq> None"
  shows "\<exists>order. nargsort_desc P items = rev order
           \<and> mset order = mset [0..<length items]
           \<and> sorted (map (\<lambda>i. case items ! i of None \<Rightarrow> 0 | Some m \<Rightarrow> m) order)"
proof -
  let ?n = "length items"
  let ?key = "\<lambda>i. case items ! i of None \<Rightarrow> 0 | Some m \<Rightarrow> m"
  let ?I = "rev [0..<?n]"
  let ?nn = "map ?key ?I"
  let ?a = "argsort P ?nn"
  let ?order = "map (\<lambda>k. ?I ! k) ?a"
  have all: "filter (\<lambda>i. items ! i \<noteq> None) [0..<?n] = [0..<?n]"
    using d by (simp add: filter_id_conv del: not_None_eq)
  have none: "filter (\<lambda>i. items ! i = None) [0..<?n] = []"
    using d by (simp add: filter_empty_conv del: not_None_eq)
  have e: "nargsort_desc P items = rev ?order"
    by (simp only: nargsort_desc_def Let_def all none append_Nil2)
  have ln: "length ?nn = ?n" by simp
  have li: "length ?I = ?n" by simp
  from ok have pa: "mset ?a = mset [0..<length ?nn]"
    and so: "sorted (map (\<lambda>k. ?nn ! k) ?a)"
    by (simp_all only: argsort_ok_def)
  have pa': "mset ?a = mset [0..<length ?I]"
    using pa by (simp only: ln li)
  have "mset ?order = mset ?I"
    using pa' by (rule mset_take_all)
  then have m: "mset ?order = mset [0..<?n]" by simp
  have "set ?a = set [0..<length ?nn]"
    using pa by (rule mset_eq_setD)
  then have mem: "\<forall>k\<in>set ?a. k < ?n" by (simp only: ln) simp
  have "map ?key ?order = map (\<lambda>k. ?nn ! k) ?a"
    unfolding map_map
  proof (rule map_cong [OF refl])
    fix k assume "k \<in> set ?a"
    then have "k < length ?I" using mem by simp
    then show "(?key \<circ> (\<lambda>k. ?I ! k)) k = ?nn ! k"
      by (simp only: comp_def nth_map)
  qed
  then have s: "sorted (map ?key ?order)" using so by (simp only:)
  from e m s show ?thesis by blast
qed

lemma summary_row_of_fields:
  "Question (summary_row_of P col) = fst col"
  "Mean (summary_row_of P col) = mean_of P (present (snd col))"
  by (simp_all add: summary_row_of_def)

lemma best_worst_rows:
  assumes ok: "argsort_ok P" and ne: "rows \<noteq> []" and d: "\<forall>r\<in>set rows. Mean r \<noteq> None"
  shows "\<exists>i j. i < length rows \<and> j < length rows
     \<and> sort_values_desc P rows \<noteq> []
     \<and> hd (sort_values_desc P rows) = rows ! i
     \<and> last (sort_values_desc P rows) = rows ! j
     \<and> (\<forall>k<length rows. the (Mean (rows ! k)) \<le> the (Mean (rows ! i)))
     \<and> (\<forall>k<length rows. the (Mean (rows ! j)) \<le> the (Mean (rows ! k)))
     \<and> (2 \<le> length rows \<longrightarrow> i \<noteq> j)"
proof -
  let ?items = "map Mean rows"
  let ?n = "length rows"
  let ?key = "\<lambda>i. case ?items ! i of None \<Rightarrow> 0 | Some m \<Rightarrow> m"
  have d': "\<forall>i<length ?items. ?items ! i \<noteq> None"
    using d by (simp del: not_None_eq)
  from nargsort_desc_defined [OF ok d'] obtain order where
    e: "nargsort_desc P ?items = rev order"
    and m: "mset order = mset [0..<?n]"
    and s: "sorted (map ?key order)"
    by (auto simp del: not_None_eq)
  have len: "length order = ?n"
    using mset_eq_length [OF m] by simp
  have one: "order \<noteq> []" using len ne by auto
  have st: "set order = {0..<?n}"
    using mset_eq_setD [OF m] by simp
  have dist: "distinct order"
    using m by (metis distinct_upt mset_eq_imp_distinct_iff)
  have key: "\<forall>k<?n. ?key k = the (Mean (rows ! k))"
  proof (intro allI impI)
    fix k assume k: "k < ?n"
    then have "Mean (rows ! k) \<noteq> None" using d by (simp del: not_None_eq)
    then obtain x where "Mean (rows ! k) = Some x" by auto
    then show "?key k = the (Mean (rows ! k))" using k by simp
  qed
  let ?i = "last order" and ?j = "hd order"
  have i: "?i < ?n" using last_in_set [OF one] st by simp
  have j: "?j < ?n" using hd_in_set [OF one] st by simp
  have sv: "sort_values_desc P rows = map (\<lambda>i. rows ! i) (rev order)"
    by (simp only: sort_values_desc_def e)
  have 1: "sort_values_desc P rows \<noteq> []" using one by (simp add: sv)
  have 2: "hd (sort_values_desc P rows) = rows ! ?i"
    using one by (simp add: sv hd_map hd_rev)
  have 3: "last (sort_values_desc P rows) = rows ! ?j"
    using one by (simp add: sv last_map last_rev)
  have 4: "\<forall>k<?n. the (Mean (rows ! k)) \<le> the (Mean (rows ! ?i))"
  proof (intro allI impI)
    fix k assume k: "k < ?n"
    then have "k \<in> set order" using st by simp
    with s have "?key k \<le> ?key ?i" by (rule sorted_key_last)
    then show "the (Mean (rows ! k)) \<le> the (Mean (rows ! ?i))"
      using key k i by simp
  qed
  have 5: "\<forall>k<?n. the (Mean (rows ! ?j)) \<le> the (Mean (rows ! k))"
  proof (intro allI impI)
    fix k assume k: "k < ?n"
    then have "k \<in> set order" using st by simp
    with s have "?key ?j \<le> ?key k" by (rule sorted_key_hd)
    then show "the (Mean (rows ! ?j)) \<le> the (Mean (rows ! k))"
      using key k j by simp
  qed
  have 6: "2 \<le> ?n \<longrightarrow> ?i \<noteq> ?j"
    using distinct_hd_last [OF dist] len by auto
  from i j 1 2 3 4 5 6 show ?thesis by blast
qed

text \<open>
  C4 (as amended). For every input table with at least one question column in which
  every question column has a non-missing value, the best question is a question with
  the highest mean and the worst question is a question with the lowest mean; among
  questions of equal mean the choice is that of the library's sort, which promises no
  order of equal keys, and with two or more questions the best and the worst question
  are different columns.
\<close>

theorem best_worst_question:
  assumes "argsort_ok P" and "questions L \<noteq> []"
    and "\<forall>col\<in>set (questions L). present (snd col) \<noteq> []"
  shows "\<exists>i j. i < length (questions L) \<and> j < length (questions L)
     \<and> best_q P L = fst (questions L ! i)
     \<and> best_mean P L = Some (mean_float P (present (snd (questions L ! i))))
     \<and> worst_q P L = fst (questions L ! j)
     \<and> worst_mean P L = Some (mean_float P (present (snd (questions L ! j))))
     \<and> (\<forall>k<length (questions L).
           mean_float P (present (snd (questions L ! k)))
             \<le> mean_float P (present (snd (questions L ! i))))
     \<and> (\<forall>k<length (questions L).
           mean_float P (present (snd (questions L ! j)))
             \<le> mean_float P (present (snd (questions L ! k))))
     \<and> (2 \<le> length (questions L) \<longrightarrow> i \<noteq> j)"
proof -
  let ?qs = "questions L"
  let ?rows = "map (summary_row_of P) ?qs"
  let ?m = "\<lambda>k. mean_float P (present (snd (?qs ! k)))"
  have ne: "?rows \<noteq> []" using assms(2) by simp
  have row: "\<forall>k<length ?qs. Question (?rows ! k) = fst (?qs ! k)
      \<and> Mean (?rows ! k) = Some (?m k)"
    using assms(3) by (simp add: summary_row_of_fields mean_of_def)
  have d: "\<forall>r\<in>set ?rows. Mean r \<noteq> None"
    using assms(3) by (simp add: summary_row_of_fields mean_of_def)
  from best_worst_rows [OF assms(1) ne d] obtain i j where
    i: "i < length ?qs" and j: "j < length ?qs"
    and sne: "summary P L \<noteq> []"
    and h: "hd (summary P L) = ?rows ! i"
    and l: "last (summary P L) = ?rows ! j"
    and mx: "\<forall>k<length ?qs. the (Mean (?rows ! k)) \<le> the (Mean (?rows ! i))"
    and mn: "\<forall>k<length ?qs. the (Mean (?rows ! j)) \<le> the (Mean (?rows ! k))"
    and ij: "2 \<le> length ?qs \<longrightarrow> i \<noteq> j"
    unfolding summary_def length_map by (elim exE conjE)
  have bq: "best_q P L = Question (hd (summary P L))"
    and bm: "best_mean P L = Mean (hd (summary P L))"
    using sne by (simp_all add: best_q_def best_mean_def split: list.split)
  have wq: "worst_q P L = Question (last (summary P L))"
    and wm: "worst_mean P L = Mean (last (summary P L))"
    using sne by (simp_all add: worst_q_def worst_mean_def)
  have 1: "best_q P L = fst (?qs ! i)" using row i by (simp only: bq h)
  have 2: "best_mean P L = Some (?m i)" using row i by (simp only: bm h)
  have 3: "worst_q P L = fst (?qs ! j)" using row j by (simp only: wq l)
  have 4: "worst_mean P L = Some (?m j)" using row j by (simp only: wm l)
  have 5: "\<forall>k<length ?qs. ?m k \<le> ?m i"
  proof (intro allI impI)
    fix k assume k: "k < length ?qs"
    have "the (Mean (?rows ! k)) \<le> the (Mean (?rows ! i))" using mx k by simp
    moreover have "Mean (?rows ! k) = Some (?m k)" using row k by simp
    moreover have "Mean (?rows ! i) = Some (?m i)" using row i by simp
    ultimately show "?m k \<le> ?m i" by (simp only: option.sel)
  qed
  have 6: "\<forall>k<length ?qs. ?m j \<le> ?m k"
  proof (intro allI impI)
    fix k assume k: "k < length ?qs"
    have "the (Mean (?rows ! j)) \<le> the (Mean (?rows ! k))" using mn k by simp
    moreover have "Mean (?rows ! k) = Some (?m k)" using row k by simp
    moreover have "Mean (?rows ! j) = Some (?m j)" using row j by simp
    ultimately show "?m j \<le> ?m k" by (simp only: option.sel)
  qed
  show ?thesis
    apply (rule exI [where x = i])
    apply (rule exI [where x = j])
    apply (intro conjI)
            apply (rule i)
           apply (rule j)
          apply (rule 1)
         apply (rule 2)
        apply (rule 3)
       apply (rule 4)
      apply (rule 5)
     apply (rule 6)
    apply (rule ij)
    done
qed

lemma fl_mean_means:
  "fl_mean [1, 1, 1] = 1" "fl_mean [5, 5, 5] = 5" "fl_mean [3, 4] = 7 / 2"
  "fl_mean [3] = 3" "fl_mean [5, 5] = 5" "fl_mean [1, 1] = 1"
proof -
  have "whole [1, 1, 1]" "whole [5, 5, 5]" "whole [3, 4]" "whole [3]" "whole [5, 5]"
    "whole [1, 1]"
    by (simp_all add: whole_def)
  then show "fl_mean [1, 1, 1] = 1" "fl_mean [5, 5, 5] = 5" "fl_mean [3, 4] = 7 / 2"
    "fl_mean [3] = 3" "fl_mean [5, 5] = 5" "fl_mean [1, 1] = 1"
    by (simp_all add: fl_mean_whole fl_demo)
qed

theorem best_worst_question_witness:
  "argsort_ok double_pandas
   \<and> questions demo_means \<noteq> []
   \<and> list_all (\<lambda>col. present (snd col) \<noteq> []) (questions demo_means)
   \<and> best_q double_pandas demo_means = str ''Q2'' \<and> best_mean double_pandas demo_means = Some 5
   \<and> worst_q double_pandas demo_means = str ''Q1'' \<and> worst_mean double_pandas demo_means = Some 1"
proof -
  let ?P = double_pandas and ?L = demo_means
  have q: "questions ?L = [(str ''Q1'', [Some 1, Some 1, Some 1]),
                    (str ''Q2'', [Some 5, Some 5, Some 5]),
                    (str ''Q3'', [Some 3, None, Some 4])]"
    by (simp add: demo_means_def)
  have ne: "questions ?L \<noteq> []" by (simp add: q)
  have la: "list_all (\<lambda>col. present (snd col) \<noteq> []) (questions ?L)"
    by (simp add: q present_def List.map_filter_simps)
  then have d: "\<forall>col\<in>set (questions ?L). present (snd col) \<noteq> []"
    by (simp only: list_all_iff)
  have m: "mean_float ?P (present (snd (questions ?L ! 0))) = 1"
    "mean_float ?P (present (snd (questions ?L ! 1))) = 5"
    "mean_float ?P (present (snd (questions ?L ! 2))) = 7 / 2"
    by (simp_all add: q present_def List.map_filter_simps double_fields fl_mean_means)
  have f: "fst (questions ?L ! 0) = str ''Q1''" "fst (questions ?L ! 1) = str ''Q2''"
    by (simp_all add: q)
  have len: "length (questions ?L) = 3" by (simp add: q)
  from best_worst_question [OF argsort_double ne d] obtain i j where
    i: "i < 3" and j: "j < 3"
    and b: "best_q ?P ?L = fst (questions ?L ! i)"
      "best_mean ?P ?L = Some (mean_float ?P (present (snd (questions ?L ! i))))"
    and w: "worst_q ?P ?L = fst (questions ?L ! j)"
      "worst_mean ?P ?L = Some (mean_float ?P (present (snd (questions ?L ! j))))"
    and mx: "\<forall>k<3. mean_float ?P (present (snd (questions ?L ! k)))
                    \<le> mean_float ?P (present (snd (questions ?L ! i)))"
    and mn: "\<forall>k<3. mean_float ?P (present (snd (questions ?L ! j)))
                    \<le> mean_float ?P (present (snd (questions ?L ! k)))"
    unfolding len by (elim exE conjE)
  from i consider "i = 0" | "i = 1" | "i = 2" by linarith
  then have i1: "i = 1"
  proof cases
    case 1
    then show ?thesis using mx [rule_format, of 1] m by simp
  next
    case 2
    then show ?thesis .
  next
    case 3
    then show ?thesis using mx [rule_format, of 1] m by simp
  qed
  from j consider "j = 0" | "j = 1" | "j = 2" by linarith
  then have j0: "j = 0"
  proof cases
    case 1
    then show ?thesis .
  next
    case 2
    then show ?thesis using mn [rule_format, of 0] m by simp
  next
    case 3
    then show ?thesis using mn [rule_format, of 0] m by simp
  qed
  have 1: "best_q ?P ?L = str ''Q2''" using b(1) by (simp only: i1 f)
  have 2: "best_mean ?P ?L = Some 5" using b(2) by (simp only: i1 m)
  have 3: "worst_q ?P ?L = str ''Q1''" using w(1) by (simp only: j0 f)
  have 4: "worst_mean ?P ?L = Some 1" using w(2) by (simp only: j0 m)
  from argsort_double ne la 1 2 3 4 show ?thesis by (intro conjI)
qed

text \<open>
  Two questions with the same mean 3: the best and the worst question are different
  columns, so they are not both the first one. A question that nobody answered has no
  mean and is sorted last: it is the worst question, although the lowest mean is that
  of the third question.
\<close>

theorem best_worst_question_counterexample:
  "best_mean double_pandas demo_tie = Some 3
   \<and> worst_mean double_pandas demo_tie = Some 3
   \<and> best_q double_pandas demo_tie \<noteq> worst_q double_pandas demo_tie
   \<and> best_q double_pandas demo_unanswered = str ''Q1''
   \<and> best_mean double_pandas demo_unanswered = Some 5
   \<and> worst_q double_pandas demo_unanswered = str ''Q2''
   \<and> worst_mean double_pandas demo_unanswered = None"
proof -
  have u2: "[0..<2] = [0, 1 :: nat]" and u3: "[0..<3] = [0, 1, 2 :: nat]"
    by (simp_all add: upt_conv_Cons)
  have t: "summary double_pandas demo_tie
      = [summary_row_of double_pandas (str ''Q1'', [Some 3]),
         summary_row_of double_pandas (str ''Q2'', [Some 3])]"
    by (simp add: summary_def sort_values_desc_def nargsort_desc_def demo_tie_def
        double_fields demo_pandas_def fl_mean_means summary_row_of_def mean_of_def present_def
        List.map_filter_simps u2)
  have n: "summary double_pandas demo_unanswered
      = [summary_row_of double_pandas (str ''Q1'', [Some 5, Some 5]),
         summary_row_of double_pandas (str ''Q3'', [Some 1, Some 1]),
         summary_row_of double_pandas (str ''Q2'', [None, None])]"
    by (simp add: summary_def sort_values_desc_def nargsort_desc_def demo_unanswered_def
        double_fields demo_pandas_def fl_mean_means summary_row_of_def mean_of_def present_def
        List.map_filter_simps u2 u3)
  have 1: "best_mean double_pandas demo_tie = Some 3"
    unfolding best_mean_def t
    by (simp add: summary_row_of_def mean_of_def present_def List.map_filter_simps
        double_fields fl_mean_means)
  have 2: "worst_mean double_pandas demo_tie = Some 3"
    unfolding worst_mean_def t
    by (simp add: summary_row_of_def mean_of_def present_def List.map_filter_simps
        double_fields fl_mean_means)
  have 3: "best_q double_pandas demo_tie \<noteq> worst_q double_pandas demo_tie"
    unfolding best_q_def worst_q_def t
    by (simp add: summary_row_of_def str_def)
  have 4: "best_q double_pandas demo_unanswered = str ''Q1''"
    unfolding best_q_def n
    by (simp add: summary_row_of_def)
  have 5: "best_mean double_pandas demo_unanswered = Some 5"
    unfolding best_mean_def n
    by (simp add: summary_row_of_def mean_of_def present_def List.map_filter_simps
        double_fields fl_mean_means)
  have 6: "worst_q double_pandas demo_unanswered = str ''Q2''"
    unfolding worst_q_def n
    by (simp add: summary_row_of_def)
  have 7: "worst_mean double_pandas demo_unanswered = None"
    unfolding worst_mean_def n
    by (simp add: summary_row_of_def mean_of_def present_def List.map_filter_simps)
  from 1 2 3 4 5 6 7 show ?thesis by (intro conjI)
qed

end
